theory Spec2Isabelle
  imports Main "HOL-Library.Word" "HOL-Library.List_Lexorder" "HOL-Library.Char_ord"
begin

section \<open>Stored entities (src/db/queries.ts)\<close>

text \<open>
  Rows of the \<^verbatim>\<open>feeds\<close> and \<^verbatim>\<open>articles\<close> tables, with the columns of the interfaces
  \<^verbatim>\<open>Feed\<close>, \<^verbatim>\<open>FeedWithUnread\<close>, \<^verbatim>\<open>Article\<close> and \<^verbatim>\<open>UpsertArticleInput\<close>. Text columns are
  opaque values compared for equality; \<^verbatim>\<open>number | null\<close> is \<open>int option\<close>; the flags
  \<^verbatim>\<open>0 | 1\<close> are integers, as the column type and \<^verbatim>\<open>1 - is_starred\<close> have them.
\<close>

record Feed =
  id :: int
  url :: string
  title :: string
  description :: string
  site_url :: string
  category :: string
  created_at :: int
  last_fetched_at :: "int option"

record FeedWithUnread = Feed +
  unread_count :: int

record Article =
  id :: int
  feed_id :: int
  guid :: string
  title :: string
  link :: string
  content :: string
  summary :: string
  author :: string
  published_at :: "int option"
  is_read :: int
  is_starred :: int
  created_at :: int

record UpsertArticleInput =
  feed_id :: int
  guid :: string
  title :: string
  link :: string
  content :: string
  summary :: string
  author :: string
  published_at :: "int option"

section \<open>The store\<close>

text \<open>
  The SQLite database the repository functions receive: the names of the schema objects
  that exist, and the rows of the tables \<^verbatim>\<open>migrations\<close>, \<^verbatim>\<open>feeds\<close> and \<^verbatim>\<open>articles\<close> in rowid
  order (for \<^verbatim>\<open>migrations\<close> that is version order, the version being the rowid).
  \<open>articles_seq\<close> is the AUTOINCREMENT counter of \<^verbatim>\<open>articles\<close>. An insert reserves its
  rowid before it looks for a conflict, so the counter advances in the update branch of
  an upsert as well; a refused statement is rolled back and leaves it alone.
  Foreign keys are enforced (\<^verbatim>\<open>PRAGMA foreign_keys = ON\<close> in src/db/connection.ts).
  A statement that reads the clock (\<^verbatim>\<open>unixepoch()\<close>) takes the reading as an argument.
\<close>

record Database =
  objects :: "string list"
  migrations :: "int list"
  feeds :: "Feed list"
  articles :: "Article list"
  articles_seq :: int

datatype sqlite_error =
  ForeignKeyFailed
  | UniqueFailed string
  | NoSuchTable string

fun message :: "sqlite_error \<Rightarrow> string" where
  "message ForeignKeyFailed = ''FOREIGN KEY constraint failed''"
| "message (UniqueFailed c) = ''UNIQUE constraint failed: '' @ c"
| "message (NoSuchTable t) = ''no such table: '' @ t"

subsection \<open>Feed queries\<close>

definition getFeedById :: "Database \<Rightarrow> int \<Rightarrow> Feed option" where
  "getFeedById db i = find (\<lambda>f. Feed.id f = i) (feeds db)"

text \<open>\<^verbatim>\<open>COLLATE NOCASE\<close> folds the 26 upper-case ASCII letters and compares bytewise.\<close>

definition nocase :: "string \<Rightarrow> string" where
  "nocase s = map (\<lambda>c. if CHR ''A'' \<le> c \<and> c \<le> CHR ''Z'' then char_of (of_char c + (32::nat)) else c) s"

definition getUnreadCount :: "Database \<Rightarrow> int \<Rightarrow> int" where
  "getUnreadCount db feedId =
     int (length (filter (\<lambda>a. Article.feed_id a = feedId \<and> is_read a = 0) (articles db)))"

definition listFeeds :: "Database \<Rightarrow> FeedWithUnread list" where
  "listFeeds db =
     map (\<lambda>f. Feed.extend f (FeedWithUnread.fields (getUnreadCount db (Feed.id f))))
       (sort_key (\<lambda>f. nocase (Feed.title f)) (feeds db))"

definition touchFeedFetchedAt :: "Database \<Rightarrow> int \<Rightarrow> int \<Rightarrow> Database" where
  "touchFeedFetchedAt db now i =
     db\<lparr>feeds := map (\<lambda>f. if Feed.id f = i then f\<lparr>last_fetched_at := Some now\<rparr> else f) (feeds db)\<rparr>"

subsection \<open>Article queries\<close>

text \<open>The conflict target of the upsert: the \<^verbatim>\<open>UNIQUE(feed_id, guid)\<close> constraint.\<close>

definition conflicts :: "UpsertArticleInput \<Rightarrow> Article \<Rightarrow> bool" where
  "conflicts article a \<longleftrightarrow>
     Article.feed_id a = feed_id article \<and> Article.guid a = guid article"

text \<open>The \<^verbatim>\<open>DO UPDATE SET\<close> list of the upsert, applied to the conflicting row.\<close>

definition do_update :: "UpsertArticleInput \<Rightarrow> Article \<Rightarrow> Article" where
  "do_update article a =
     a\<lparr>Article.title := title article,
       Article.link := link article,
       Article.content := content article,
       Article.summary := summary article,
       Article.author := author article,
       Article.published_at := published_at article\<rparr>"

text \<open>
  The row a plain insert creates: the eight bound columns, the column defaults
  (\<^verbatim>\<open>is_read 0\<close>, \<^verbatim>\<open>is_starred 0\<close>, \<^verbatim>\<open>created_at unixepoch()\<close>) and a rowid larger than any
  the table holds or has handed out.
\<close>

definition next_rowid :: "Database \<Rightarrow> int" where
  "next_rowid db = fold max (map Article.id (articles db)) (articles_seq db) + 1"

definition inserted_row :: "Database \<Rightarrow> int \<Rightarrow> UpsertArticleInput \<Rightarrow> Article" where
  "inserted_row db now article =
     \<lparr>Article.id = next_rowid db,
      Article.feed_id = feed_id article,
      Article.guid = guid article,
      Article.title = title article,
      Article.link = link article,
      Article.content = content article,
      Article.summary = summary article,
      Article.author = author article,
      Article.published_at = published_at article,
      is_read = 0,
      is_starred = 0,
      Article.created_at = now\<rparr>"

text \<open>
  \<^verbatim>\<open>INSERT ... ON CONFLICT(feed_id, guid) DO UPDATE SET ... RETURNING *\<close>. A row with the
  same (feed_id, guid) sends the statement to its update branch; otherwise the row is
  inserted, which the foreign key on \<^verbatim>\<open>feed_id\<close> refuses when no such feed exists. A
  refused statement leaves the store as it was and throws.
\<close>

definition upsertArticle ::
  "Database \<Rightarrow> int \<Rightarrow> UpsertArticleInput \<Rightarrow> sqlite_error + (Database \<times> Article)" where
  "upsertArticle db now article =
     (case find (conflicts article) (articles db) of
        Some old \<Rightarrow>
          Inr (db\<lparr>articles :=
                    map (\<lambda>a. if conflicts article a then do_update article a else a) (articles db),
                  articles_seq := next_rowid db\<rparr>,
               do_update article old)
      | None \<Rightarrow>
          if \<not> (\<exists>f \<in> set (feeds db). Feed.id f = feed_id article) then Inl ForeignKeyFailed
          else
            let row = inserted_row db now article
            in Inr (db\<lparr>articles := articles db @ [row], articles_seq := Article.id row\<rparr>, row))"

definition getArticleById :: "Database \<Rightarrow> int \<Rightarrow> Article option" where
  "getArticleById db i = find (\<lambda>a. Article.id a = i) (articles db)"

definition markArticleRead :: "Database \<Rightarrow> int \<Rightarrow> bool \<Rightarrow> Database" where
  "markArticleRead db i isRead =
     db\<lparr>articles :=
          map (\<lambda>a. if Article.id a = i then a\<lparr>is_read := (if isRead then 1 else 0)\<rparr> else a)
            (articles db)\<rparr>"

definition toggleArticleStarred :: "Database \<Rightarrow> int \<Rightarrow> Database" where
  "toggleArticleStarred db i =
     db\<lparr>articles :=
          map (\<lambda>a. if Article.id a = i then a\<lparr>is_starred := 1 - is_starred a\<rparr> else a)
            (articles db)\<rparr>"

section \<open>Feed service (services/feed.ts, here src/unnamed/part_005)\<close>

record ParsedFeedItem =
  guid :: string
  title :: string
  link :: string
  content :: string
  summary :: string
  author :: string
  published_at :: "int option"

record ParsedFeed =
  title :: string
  description :: string
  site_url :: string
  items :: "ParsedFeedItem list"

record RefreshResult =
  feedId :: int
  added :: int
  errors :: "string list"

text \<open>
  What \<^verbatim>\<open>rss-parser\<close> hands back: every field the service reads may be absent
  (\<^verbatim>\<open>undefined\<close>), which is \<open>None\<close>. \<open>content_encoded\<close> is the custom field
  \<^verbatim>\<open>content:encoded\<close>.
\<close>

record ParserItem =
  guid :: "string option"
  title :: "string option"
  link :: "string option"
  content_encoded :: "string option"
  content :: "string option"
  contentSnippet :: "string option"
  creator :: "string option"
  author :: "string option"
  pubDate :: "string option"
  isoDate :: "string option"

record ParserOutput =
  title :: "string option"
  description :: "string option"
  link :: "string option"
  items :: "ParserItem list option"

text \<open>
  The outside world of the service: \<^verbatim>\<open>parser.parseURL\<close>, which settles for every URL with
  a document or with a rejection (\<open>Inl\<close>, carrying the text the \<^verbatim>\<open>catch\<close> clause derives
  from the thrown value), and \<^verbatim>\<open>Date.parse\<close>, milliseconds or \<^verbatim>\<open>NaN\<close> (\<open>None\<close>).
\<close>

record World =
  parseURL :: "string \<Rightarrow> string + ParserOutput"
  Date_parse :: "string \<Rightarrow> int option"

text \<open>The operator \<^verbatim>\<open>a ?? b\<close>.\<close>

fun nullish :: "'a option \<Rightarrow> 'a option \<Rightarrow> 'a option" where
  "nullish (Some a) b = Some a"
| "nullish None b = b"

fun or_else :: "'a option \<Rightarrow> 'a \<Rightarrow> 'a" where
  "or_else (Some a) b = a"
| "or_else None b = b"

definition toUnixSeconds :: "World \<Rightarrow> string option \<Rightarrow> int option" where
  "toUnixSeconds w dateStr =
     (case dateStr of
        None \<Rightarrow> None
      | Some s \<Rightarrow>
          if s = [] then None
          else (case Date_parse w s of None \<Rightarrow> None | Some ms \<Rightarrow> Some (ms div 1000)))"

definition normalize_item :: "World \<Rightarrow> ParserItem \<Rightarrow> ParsedFeedItem" where
  "normalize_item w item =
     \<lparr>ParsedFeedItem.guid =
        or_else (nullish (ParserItem.guid item)
                  (nullish (ParserItem.link item) (ParserItem.title item))) '''',
      ParsedFeedItem.title = or_else (ParserItem.title item) '''',
      ParsedFeedItem.link = or_else (ParserItem.link item) '''',
      ParsedFeedItem.content =
        or_else (nullish (content_encoded item) (ParserItem.content item)) '''',
      ParsedFeedItem.summary = or_else (contentSnippet item) '''',
      ParsedFeedItem.author = or_else (nullish (creator item) (ParserItem.author item)) '''',
      ParsedFeedItem.published_at = toUnixSeconds w (nullish (pubDate item) (isoDate item))\<rparr>"

definition fetchAndParseFeed :: "World \<Rightarrow> string \<Rightarrow> string + ParsedFeed" where
  "fetchAndParseFeed w u =
     (case parseURL w u of
        Inl err \<Rightarrow> Inl err
      | Inr feed \<Rightarrow>
          Inr \<lparr>ParsedFeed.title = or_else (ParserOutput.title feed) '''',
               ParsedFeed.description = or_else (ParserOutput.description feed) '''',
               ParsedFeed.site_url = or_else (ParserOutput.link feed) '''',
               ParsedFeed.items = map (normalize_item w) (or_else (ParserOutput.items feed) [])\<rparr>)"

text \<open>
  Decimal rendering of a feed id inside the template literal. It is what JavaScript
  prints for every integer below \<open>10\<^sup>2\<^sup>1\<close> in magnitude, which covers every rowid (a
  64-bit integer); from there on JavaScript prints an exponent form, which is not
  modelled.
\<close>

function show_nat :: "nat \<Rightarrow> string" where
  "show_nat n =
     (if n < 10 then [char_of (48 + n)] else show_nat (n div 10) @ [char_of (48 + n mod 10)])"
  by pat_completeness auto
termination
  by (relation "measure (\<lambda>n. n)") auto

definition show_int :: "int \<Rightarrow> string" where
  "show_int i = (if i < 0 then CHR ''-'' # show_nat (nat (- i)) else show_nat (nat i))"

definition item_input :: "int \<Rightarrow> ParsedFeedItem \<Rightarrow> UpsertArticleInput" where
  "item_input fid item =
     \<lparr>UpsertArticleInput.feed_id = fid,
      UpsertArticleInput.guid = ParsedFeedItem.guid item,
      UpsertArticleInput.title = ParsedFeedItem.title item,
      UpsertArticleInput.link = ParsedFeedItem.link item,
      UpsertArticleInput.content = ParsedFeedItem.content item,
      UpsertArticleInput.summary = ParsedFeedItem.summary item,
      UpsertArticleInput.author = ParsedFeedItem.author item,
      UpsertArticleInput.published_at = ParsedFeedItem.published_at item\<rparr>"

text \<open>
  The \<^verbatim>\<open>for\<close> loop of \<^verbatim>\<open>refreshFeed\<close>: one upsert per item inside its own \<^verbatim>\<open>try\<close>; a
  thrown error is appended to \<open>errors\<close> and the loop goes on.
\<close>

fun upsert_items ::
  "Database \<Rightarrow> int \<Rightarrow> int \<Rightarrow> ParsedFeedItem list \<Rightarrow> RefreshResult \<Rightarrow> Database \<times> RefreshResult" where
  "upsert_items db now fid [] result = (db, result)"
| "upsert_items db now fid (item # rest) result =
     (case upsertArticle db now (item_input fid item) of
        Inr (db', row) \<Rightarrow> upsert_items db' now fid rest (result\<lparr>added := added result + 1\<rparr>)
      | Inl err \<Rightarrow> upsert_items db now fid rest (result\<lparr>errors := errors result @ [message err]\<rparr>))"

text \<open>
  \<^verbatim>\<open>refreshFeed\<close> has one \<^verbatim>\<open>await\<close>. \<open>refreshFeed_start\<close> is the function up to it: the
  lookup, which either returns at once or leaves the call waiting for the fetch of the
  feed's URL. \<open>refreshFeed_resume\<close> is the function after it, run on the store as it is
  when the fetch settles, its statements under one clock reading. \<open>refreshFeed\<close> is a
  call during whose wait nothing else touches the store.
\<close>

datatype suspended =
  Returned RefreshResult
  | Awaiting int RefreshResult string

definition refreshFeed_start :: "Database \<Rightarrow> int \<Rightarrow> suspended" where
  "refreshFeed_start db fid =
     (let result = \<lparr>feedId = fid, added = 0, errors = []\<rparr>
      in case getFeedById db fid of
           None \<Rightarrow>
             Returned (result\<lparr>errors := errors result @ [''Feed '' @ show_int fid @ '' not found'']\<rparr>)
         | Some feed \<Rightarrow> Awaiting fid result (url feed))"

definition refreshFeed_resume ::
  "Database \<Rightarrow> int \<Rightarrow> int \<Rightarrow> RefreshResult \<Rightarrow> string + ParsedFeed \<Rightarrow> Database \<times> RefreshResult" where
  "refreshFeed_resume db now fid result fetched =
     (case fetched of
        Inl err \<Rightarrow> (db, result\<lparr>errors := errors result @ [err]\<rparr>)
      | Inr parsed \<Rightarrow>
          (case upsert_items db now fid (ParsedFeed.items parsed) result of
             (db', result') \<Rightarrow> (touchFeedFetchedAt db' now fid, result')))"

definition refreshFeed :: "World \<Rightarrow> Database \<Rightarrow> int \<Rightarrow> int \<Rightarrow> Database \<times> RefreshResult" where
  "refreshFeed w db now fid =
     (case refreshFeed_start db fid of
        Returned result \<Rightarrow> (db, result)
      | Awaiting i result u \<Rightarrow> refreshFeed_resume db now i result (fetchAndParseFeed w u))"

text \<open>
  \<^verbatim>\<open>refreshAllFeeds\<close> starts one call per listed feed, each running up to its \<^verbatim>\<open>await\<close>, and
  \<^verbatim>\<open>Promise.all\<close> waits for all of them. The fetches settle in an order the program does
  not choose: \<open>events\<close> lists, in that order, which call's fetch settles and the clock
  reading at that moment. A settling fetch resumes its call, which then runs to its end
  without another \<^verbatim>\<open>await\<close>. The promise resolves, with the results in the order of the
  calls, once every call has returned; \<open>None\<close> is a promise still pending when the events
  are used up.
\<close>

fun settle ::
  "World \<Rightarrow> (nat \<times> int) list \<Rightarrow> Database \<Rightarrow> suspended list \<Rightarrow> Database \<times> suspended list" where
  "settle w [] db calls = (db, calls)"
| "settle w ((i, now) # events) db calls =
     (if i < length calls then
        (case calls ! i of
           Returned result \<Rightarrow> settle w events db calls
         | Awaiting fid result u \<Rightarrow>
             (case refreshFeed_resume db now fid result (fetchAndParseFeed w u) of
                (db', result') \<Rightarrow> settle w events db' (calls[i := Returned result'])))
      else settle w events db calls)"

fun returned :: "suspended \<Rightarrow> RefreshResult option" where
  "returned (Returned result) = Some result"
| "returned (Awaiting fid result u) = None"

definition refreshAllFeeds ::
  "World \<Rightarrow> (nat \<times> int) list \<Rightarrow> Database \<Rightarrow> (Database \<times> RefreshResult list) option" where
  "refreshAllFeeds w events db =
     (let fs = listFeeds db;
          calls = map (\<lambda>f. refreshFeed_start db (Feed.id f)) fs
      in case settle w events db calls of
           (db', settled) \<Rightarrow> map_option (Pair db') (those (map returned settled)))"

text \<open>The feed id a call of \<^verbatim>\<open>refreshFeed\<close> reports in its result.\<close>

fun call_feedId :: "suspended \<Rightarrow> int" where
  "call_feedId (Returned result) = feedId result"
| "call_feedId (Awaiting fid result u) = feedId result"

section \<open>Search service (services/search.ts, here the second part of src/src/services/feed.test.ts)\<close>

text \<open>
  A JavaScript string is a sequence of UTF-16 code units. \<open>isWhiteSpace\<close> is the set
  both \<^verbatim>\<open>String.prototype.trim\<close> and the regular expression class \<^verbatim>\<open>\s\<close> use: the
  WhiteSpace and LineTerminator code points of ECMAScript.
\<close>

type_synonym jsstring = "16 word list"

definition isWhiteSpace :: "16 word \<Rightarrow> bool" where
  "isWhiteSpace c \<longleftrightarrow>
     c \<in> {0x09, 0x0A, 0x0B, 0x0C, 0x0D, 0x20, 0xA0, 0x1680, 0x2028, 0x2029, 0x202F, 0x205F,
          0x3000, 0xFEFF}
     \<or> (0x2000 \<le> c \<and> c \<le> 0x200A)"

text \<open>The character class \<^verbatim>\<open>["*^():+-]\<close>: quote, asterisk, caret, parentheses, colon, plus, minus.\<close>

definition isOperator :: "16 word \<Rightarrow> bool" where
  "isOperator c \<longleftrightarrow> c \<in> {0x22, 0x2A, 0x5E, 0x28, 0x29, 0x3A, 0x2B, 0x2D}"

definition trim :: "jsstring \<Rightarrow> jsstring" where
  "trim s = rev (dropWhile isWhiteSpace (rev (dropWhile isWhiteSpace s)))"

definition replace_operators :: "jsstring \<Rightarrow> jsstring" where
  "replace_operators s = map (\<lambda>c. if isOperator c then 0x20 else c) s"

text \<open>
  \<^verbatim>\<open>s.split(/\s+/)\<close>: the pieces between maximal runs of whitespace, the empty pieces
  before a leading and after a trailing run included; the empty string gives one empty
  piece.
\<close>

function split_ws :: "jsstring \<Rightarrow> jsstring list" where
  "split_ws s =
     (let piece = takeWhile (\<lambda>c. \<not> isWhiteSpace c) s;
          rest = dropWhile (\<lambda>c. \<not> isWhiteSpace c) s
      in if rest = [] then [piece] else piece # split_ws (dropWhile isWhiteSpace rest))"
  by pat_completeness auto
termination
proof (relation "measure length")
  show "wf (measure length)" by simp
next
  fix s piece rest :: jsstring
  assume r: "rest = dropWhile (\<lambda>c. \<not> isWhiteSpace c) s" and ne: "rest \<noteq> []"
  from ne obtain c cs where rest: "rest = c # cs" by (cases rest) auto
  have "dropWhile (\<lambda>c. \<not> isWhiteSpace c) s = c # cs"
    using r rest by simp
  then have "isWhiteSpace c"
    using hd_dropWhile [of "\<lambda>c. \<not> isWhiteSpace c" s] by simp
  then have "length (dropWhile isWhiteSpace rest) \<le> length cs"
    by (simp add: rest length_dropWhile_le)
  also have "length cs < length rest" by (simp add: rest)
  also have "length rest \<le> length s" by (simp add: r length_dropWhile_le)
  finally show "(dropWhile isWhiteSpace rest, s) \<in> measure length" by simp
qed

text \<open>\<^verbatim>\<open>tokens.join(sep)\<close>.\<close>

fun join :: "jsstring \<Rightarrow> jsstring list \<Rightarrow> jsstring" where
  "join sep [] = []"
| "join sep [t] = t"
| "join sep (t # ts) = t @ sep @ join sep ts"

definition sanitizeFtsQuery :: "jsstring \<Rightarrow> jsstring" where
  "sanitizeFtsQuery raw =
     (let stripped = trim (replace_operators raw);
          tokens = filter (\<lambda>t. t \<noteq> []) (split_ws stripped)
      in if length tokens = 0 then []
         else join [0x20] (tokens[length tokens - 1 := tokens ! (length tokens - 1) @ [0x2A]]))"

text \<open>
  \<^verbatim>\<open>searchArticles\<close>. The text-search index is the parameter \<open>fts\<close>: the prepared statement
  run with a MATCH string and a limit, giving rows or throwing. The first component of
  the result lists the MATCH strings the call sent to the index; the second is what the
  call returns (\<open>Inr\<close>) or throws (\<open>Inl\<close>).
\<close>

definition searchArticles ::
  "(jsstring \<Rightarrow> int \<Rightarrow> string + 'r list) \<Rightarrow> jsstring \<Rightarrow> int \<Rightarrow> jsstring list \<times> (string + 'r list)" where
  "searchArticles fts query limit =
     (let trimmed = trim query
      in if trimmed = [] then ([], Inr [])
         else
           let ftsQuery = sanitizeFtsQuery trimmed
           in if ftsQuery = [] then ([], Inr []) else ([ftsQuery], fts ftsQuery limit))"

text \<open>
  The query string as the specification words it: every operator character replaced by a
  space, the text split on whitespace with the empty tokens dropped, the wildcard
  appended to the final token only, the tokens joined by one space.
\<close>

definition spec_tokens :: "jsstring \<Rightarrow> jsstring list" where
  "spec_tokens query = filter (\<lambda>t. t \<noteq> []) (split_ws (replace_operators query))"

fun wildcard_final :: "jsstring list \<Rightarrow> jsstring list" where
  "wildcard_final [] = []"
| "wildcard_final [t] = [t @ [0x2A]]"
| "wildcard_final (t # ts) = t # wildcard_final ts"

definition spec_fts_query :: "jsstring \<Rightarrow> jsstring" where
  "spec_fts_query query = join [0x20] (wildcard_final (spec_tokens query))"

section \<open>Migrations (db/schema.ts, here src/unnamed/part_003)\<close>

text \<open>
  A migration script is the list of schema objects it creates; every statement of the
  script is a \<^verbatim>\<open>CREATE ... IF NOT EXISTS\<close>. A table that is created starts empty.
\<close>

record migration =
  version :: int
  sql :: "string list"

definition MIGRATIONS :: "migration list" where
  "MIGRATIONS =
     [\<lparr>version = 1,
       sql = [''feeds'', ''articles'', ''tags'', ''article_tags'', ''articles_fts'',
              ''articles_fts_insert'', ''articles_fts_update'', ''articles_fts_delete'']\<rparr>]"

definition empty_table :: "string \<Rightarrow> Database \<Rightarrow> Database" where
  "empty_table name db =
     (if name = ''migrations'' then db\<lparr>migrations := []\<rparr>
      else if name = ''feeds'' then db\<lparr>feeds := []\<rparr>
      else if name = ''articles'' then db\<lparr>articles := [], articles_seq := 0\<rparr>
      else db)"

definition create_if_not_exists :: "string \<Rightarrow> Database \<Rightarrow> Database" where
  "create_if_not_exists name db =
     (if name \<in> set (objects db) then db
      else empty_table name (db\<lparr>objects := objects db @ [name]\<rparr>))"

definition exec :: "string list \<Rightarrow> Database \<Rightarrow> Database" where
  "exec script db = fold create_if_not_exists script db"

text \<open>\<^verbatim>\<open>INSERT INTO migrations (version) VALUES (?)\<close>; \<open>version\<close> is the primary key.\<close>

definition insert_migration :: "int \<Rightarrow> Database \<Rightarrow> sqlite_error + Database" where
  "insert_migration v db =
     (if ''migrations'' \<notin> set (objects db) then Inl (NoSuchTable ''migrations'')
      else if v \<in> set (migrations db) then Inl (UniqueFailed ''migrations.version'')
      else Inr (db\<lparr>migrations := insort v (migrations db)\<rparr>))"

text \<open>
  The loop of \<^verbatim>\<open>runMigrations\<close>. \<open>applied\<close> is read once, before the loop. Each pending
  migration runs in a transaction: an error rolls the transaction back and leaves
  \<^verbatim>\<open>runMigrations\<close> by the exception.
\<close>

fun run_pending :: "int list \<Rightarrow> migration list \<Rightarrow> Database \<Rightarrow> sqlite_error + Database" where
  "run_pending applied [] db = Inr db"
| "run_pending applied (m # ms) db =
     (if version m \<in> set applied then run_pending applied ms db
      else
        (case insert_migration (version m) (exec (sql m) db) of
           Inl err \<Rightarrow> Inl err
         | Inr db' \<Rightarrow> run_pending applied ms db'))"

definition runMigrations :: "Database \<Rightarrow> sqlite_error + Database" where
  "runMigrations db =
     (let db1 = create_if_not_exists ''migrations'' db;
          applied = migrations db1
      in run_pending applied MIGRATIONS db1)"

section \<open>Schema constraints as predicates on the store\<close>

text \<open>\<^verbatim>\<open>UNIQUE(feed_id, guid)\<close> on \<^verbatim>\<open>articles\<close>.\<close>

definition unique_feed_guid :: "Database \<Rightarrow> bool" where
  "unique_feed_guid db \<longleftrightarrow>
     distinct (map (\<lambda>a. (Article.feed_id a, Article.guid a)) (articles db))"

text \<open>The rows of \<^verbatim>\<open>articles\<close> that carry a given (feed_id, guid) pair.\<close>

definition rows_for :: "Database \<Rightarrow> int \<Rightarrow> string \<Rightarrow> Article list" where
  "rows_for db fid g =
     filter (\<lambda>a. Article.feed_id a = fid \<and> Article.guid a = g) (articles db)"

section \<open>A small store and a small world\<close>

text \<open>
  One subscribed feed with one stored article, already read and starred, and a network
  on which only that feed's URL answers: with two items, the first under the stored
  article's GUID, the second without an explicit GUID.
\<close>

definition ex_feed :: Feed where
  "ex_feed =
     \<lparr>Feed.id = 1, url = ''https://example.com/feed'', Feed.title = ''Test Feed'',
      Feed.description = [], Feed.site_url = [], category = [],
      Feed.created_at = 1690000000, last_fetched_at = None\<rparr>"

definition ex_article :: Article where
  "ex_article =
     \<lparr>Article.id = 1, Article.feed_id = 1, Article.guid = ''guid-1'',
      Article.title = ''v1'', Article.link = [], Article.content = [],
      Article.summary = [], Article.author = [], Article.published_at = None,
      is_read = 1, is_starred = 1, Article.created_at = 1690000001\<rparr>"

definition ex_db :: Database where
  "ex_db =
     \<lparr>objects = [''migrations'', ''feeds'', ''articles''], migrations = [1],
      feeds = [ex_feed], articles = [ex_article], articles_seq = 1\<rparr>"

definition ex_item1 :: ParserItem where
  "ex_item1 =
     \<lparr>ParserItem.guid = Some ''guid-1'', ParserItem.title = Some ''v2'',
      ParserItem.link = Some ''https://example.com/1'', content_encoded = None,
      ParserItem.content = Some ''Full content one'', contentSnippet = Some ''Summary one'',
      creator = Some ''Alice'', ParserItem.author = None,
      pubDate = Some ''Tue, 14 Nov 2023 22:13:20 GMT'', isoDate = None\<rparr>"

definition ex_item2 :: ParserItem where
  "ex_item2 =
     \<lparr>ParserItem.guid = None, ParserItem.title = Some ''Article Two'',
      ParserItem.link = Some ''https://example.com/2'', content_encoded = None,
      ParserItem.content = None, contentSnippet = None,
      creator = None, ParserItem.author = Some ''Bob'',
      pubDate = None, isoDate = None\<rparr>"

definition ex_output :: ParserOutput where
  "ex_output =
     \<lparr>ParserOutput.title = Some ''Test Feed'', ParserOutput.description = None,
      ParserOutput.link = Some ''https://example.com'',
      ParserOutput.items = Some [ex_item1, ex_item2]\<rparr>"

definition ex_world :: World where
  "ex_world =
     \<lparr>parseURL = (\<lambda>u. if u = ''https://example.com/feed'' then Inr ex_output
                      else Inl ''Network timeout''),
      Date_parse = (\<lambda>s. if s = ''Tue, 14 Nov 2023 22:13:20 GMT'' then Some 1700000000000
                        else None)\<rparr>"

text \<open>The same world with the network down.\<close>

definition ex_offline :: World where
  "ex_offline = ex_world\<lparr>parseURL := (\<lambda>u. Inl ''Network timeout'')\<rparr>"

text \<open>Two versions of a new article of that feed, and a new version of the stored one.\<close>

definition ex_v1 :: UpsertArticleInput where
  "ex_v1 =
     \<lparr>UpsertArticleInput.feed_id = 1, UpsertArticleInput.guid = ''same-guid'',
      UpsertArticleInput.title = ''v1'', UpsertArticleInput.link = [],
      UpsertArticleInput.content = [], UpsertArticleInput.summary = [],
      UpsertArticleInput.author = [], UpsertArticleInput.published_at = None\<rparr>"

definition ex_v2 :: UpsertArticleInput where
  "ex_v2 =
     \<lparr>UpsertArticleInput.feed_id = 1, UpsertArticleInput.guid = ''same-guid'',
      UpsertArticleInput.title = ''v2'', UpsertArticleInput.link = ''https://example.com/g'',
      UpsertArticleInput.content = ''Body'', UpsertArticleInput.summary = ''Sum'',
      UpsertArticleInput.author = ''Alice'', UpsertArticleInput.published_at = Some 1000\<rparr>"

definition ex_update :: UpsertArticleInput where
  "ex_update = ex_v2\<lparr>UpsertArticleInput.guid := ''guid-1''\<rparr>"

text \<open>
  Two subscribed feeds, the second with an address that does not answer. The listing
  puts the second first (\<^verbatim>\<open>Bad Feed\<close> sorts before \<^verbatim>\<open>Test Feed\<close>).
\<close>

definition ex_bad_feed :: Feed where
  "ex_bad_feed =
     ex_feed\<lparr>Feed.id := 2, url := ''https://bad-url.example.com/feed'', Feed.title := ''Bad Feed''\<rparr>"

definition ex_db2 :: Database where
  "ex_db2 = ex_db\<lparr>feeds := [ex_feed, ex_bad_feed]\<rparr>"

text \<open>The second listed call's fetch settles first.\<close>

definition ex_events :: "(nat \<times> int) list" where
  "ex_events = [(1, 1700000000), (0, 1700000005)]"

text \<open>Example queries are ASCII text, one code unit per character.\<close>

definition ascii :: "string \<Rightarrow> jsstring" where
  "ascii s = map of_char s"

text \<open>An index that rejects every MATCH string it is sent.\<close>

definition ex_strict_index :: "jsstring \<Rightarrow> int \<Rightarrow> string + nat list" where
  "ex_strict_index q limit = Inl ''fts5: syntax error''"

text \<open>An index holding one article, row 7, that matches the prefix \<^verbatim>\<open>power\<close>.\<close>

definition ex_index :: "jsstring \<Rightarrow> int \<Rightarrow> string + nat list" where
  "ex_index q limit = (if q = ascii ''power*'' then Inr [7] else Inr [])"


section \<open>Properties of the upsert\<close>

lemma conflicts_do_update [simp]: "conflicts i (do_update j a) = conflicts i a"
  by (simp add: conflicts_def do_update_def)

lemma conflicts_inserted_row [simp]: "conflicts i (inserted_row db now i)"
  by (simp add: conflicts_def inserted_row_def)

lemma find_None_filter: "find P xs = None \<Longrightarrow> filter P xs = []"
  by (induction xs) (auto split: if_splits)

lemma find_Some_filter_distinct:
  "find (\<lambda>a. k a = v) xs = Some old \<Longrightarrow> distinct (map k xs) \<Longrightarrow> filter (\<lambda>a. k a = v) xs = [old]"
proof (induction xs)
  case Nil
  then show ?case by simp
next
  case (Cons x xs)
  show ?case
  proof (cases "k x = v")
    case True
    have "old = x" using Cons.prems(1) True by simp
    moreover have "\<forall>y\<in>set xs. k y \<noteq> v"
    proof
      fix y assume "y \<in> set xs"
      then have "k y \<in> set (map k xs)" by simp
      then show "k y \<noteq> v" using Cons.prems(2) True by auto
    qed
    ultimately show ?thesis using True by (simp add: filter_empty_conv)
  next
    case False
    with Cons show ?thesis by simp
  qed
qed

lemma conflicts_key:
  "conflicts i =
     (\<lambda>a. (Article.feed_id a, Article.guid a)
            = (UpsertArticleInput.feed_id i, UpsertArticleInput.guid i))"
  by (auto simp: conflicts_def fun_eq_iff)

lemma key_do_update [simp]:
  "Article.feed_id (do_update i a) = Article.feed_id a" "Article.guid (do_update i a) = Article.guid a"
  by (simp_all add: do_update_def)

lemma map_key_update:
  "map (\<lambda>a. (Article.feed_id a, Article.guid a)) (map (\<lambda>a. if conflicts i a then do_update i a else a) xs)
   = map (\<lambda>a. (Article.feed_id a, Article.guid a)) xs"
  by (induction xs) auto

lemma filter_conflicts_update:
  "filter (conflicts i) (map (\<lambda>a. if conflicts i a then do_update i a else a) xs)
   = map (do_update i) (filter (conflicts i) xs)"
  by (induction xs) auto

lemma upsertArticle_rows:
  assumes u: "unique_feed_guid db" and r: "upsertArticle db now i = Inr (db', row)"
  shows "filter (conflicts i) (articles db') = [row]"
    and "unique_feed_guid db'"
    and "feeds db' = feeds db"
    and "Article.title row = UpsertArticleInput.title i \<and>
         Article.link row = UpsertArticleInput.link i \<and>
         Article.content row = UpsertArticleInput.content i \<and>
         Article.summary row = UpsertArticleInput.summary i \<and>
         Article.author row = UpsertArticleInput.author i \<and>
         Article.published_at row = UpsertArticleInput.published_at i"
proof -
  show "filter (conflicts i) (articles db') = [row]"
  proof (cases "find (conflicts i) (articles db)")
    case None
    then show ?thesis using r
      by (auto simp: upsertArticle_def Let_def find_None_filter split: if_splits)
  next
    case (Some old)
    have "filter (conflicts i) (articles db) = [old]"
      using Some u unfolding conflicts_key unique_feed_guid_def
      by (rule find_Some_filter_distinct)
    then show ?thesis using r Some
      by (auto simp: upsertArticle_def filter_conflicts_update)
  qed
  show "unique_feed_guid db'"
  proof (cases "find (conflicts i) (articles db)")
    case None
    then have "\<forall>a\<in>set (articles db). \<not> conflicts i a" by (simp add: find_None_iff)
    then have "(UpsertArticleInput.feed_id i, UpsertArticleInput.guid i)
        \<notin> set (map (\<lambda>a. (Article.feed_id a, Article.guid a)) (articles db))"
      by (auto simp: conflicts_def)
    then show ?thesis using r None u
      by (auto simp: upsertArticle_def Let_def unique_feed_guid_def inserted_row_def split: if_splits)
  next
    case (Some old)
    then have "articles db' = map (\<lambda>a. if conflicts i a then do_update i a else a) (articles db)"
      using r by (auto simp: upsertArticle_def)
    then show ?thesis using u
      unfolding unique_feed_guid_def by (simp only: map_key_update)
  qed
  show "feeds db' = feeds db" using r
    by (auto simp: upsertArticle_def Let_def split: option.splits if_splits)
  show "Article.title row = UpsertArticleInput.title i \<and>
         Article.link row = UpsertArticleInput.link i \<and>
         Article.content row = UpsertArticleInput.content i \<and>
         Article.summary row = UpsertArticleInput.summary i \<and>
         Article.author row = UpsertArticleInput.author i \<and>
         Article.published_at row = UpsertArticleInput.published_at i" using r
    by (auto simp: upsertArticle_def Let_def do_update_def inserted_row_def split: option.splits if_splits)
qed

lemma upsertArticle_succeeds:
  "(\<exists>a\<in>set (articles db). conflicts i a) \<or>
   (\<exists>f\<in>set (feeds db). Feed.id f = UpsertArticleInput.feed_id i)
   \<Longrightarrow> \<exists>db' row. upsertArticle db now i = Inr (db', row)"
  by (cases "find (conflicts i) (articles db)")
     (auto simp: upsertArticle_def Let_def find_None_iff split: option.splits)

lemma find_in_set: "find P xs = Some x \<Longrightarrow> x \<in> set xs \<and> P x"
  by (induction xs) (auto split: if_splits)

lemma rows_for_conflicts:
  "UpsertArticleInput.feed_id i = fid \<Longrightarrow> UpsertArticleInput.guid i = g \<Longrightarrow>
   rows_for db fid g = filter (conflicts i) (articles db)"
proof -
  assume "UpsertArticleInput.feed_id i = fid" "UpsertArticleInput.guid i = g"
  then have "conflicts i = (\<lambda>a. Article.feed_id a = fid \<and> Article.guid a = g)"
    by (auto simp: conflicts_def fun_eq_iff)
  then show ?thesis by (simp add: rows_for_def)
qed

text \<open>
  C1. In a store that satisfies the UNIQUE(feed_id, guid) constraint, for every stored
  feed and every GUID, two upserts under the same (feed_id, guid) pair, whatever their
  content fields, both succeed and leave exactly one stored row for the pair, and that
  row carries the title, link, content, summary, author and published_at of the second
  upsert.
\<close>

theorem upsertArticle_twice_one_row:
  assumes u: "unique_feed_guid db"
    and f: "getFeedById db fid = Some feed"
    and k1: "UpsertArticleInput.feed_id v1 = fid" "UpsertArticleInput.guid v1 = g"
    and k2: "UpsertArticleInput.feed_id v2 = fid" "UpsertArticleInput.guid v2 = g"
  shows "\<exists>db1 row1 db2 row2.
           upsertArticle db t1 v1 = Inr (db1, row1) \<and>
           upsertArticle db1 t2 v2 = Inr (db2, row2) \<and>
           rows_for db2 fid g = [row2] \<and>
           Article.title row2 = UpsertArticleInput.title v2 \<and>
           Article.link row2 = UpsertArticleInput.link v2 \<and>
           Article.content row2 = UpsertArticleInput.content v2 \<and>
           Article.summary row2 = UpsertArticleInput.summary v2 \<and>
           Article.author row2 = UpsertArticleInput.author v2 \<and>
           Article.published_at row2 = UpsertArticleInput.published_at v2"
proof -
  from f have "\<exists>x\<in>set (feeds db). Feed.id x = UpsertArticleInput.feed_id v1"
    using find_in_set [of "\<lambda>x. Feed.id x = fid" "feeds db" feed] k1
    by (auto simp: getFeedById_def)
  then obtain db1 row1 where r1: "upsertArticle db t1 v1 = Inr (db1, row1)"
    using upsertArticle_succeeds [of db v1 t1] by blast
  have rows1: "filter (conflicts v1) (articles db1) = [row1]" and u1: "unique_feed_guid db1"
    using upsertArticle_rows [OF u r1] by simp_all
  have same: "conflicts v2 = conflicts v1"
    using k1 k2 by (simp add: conflicts_def fun_eq_iff)
  have "row1 \<in> set (filter (conflicts v1) (articles db1))" by (simp add: rows1)
  then have "\<exists>a\<in>set (articles db1). conflicts v2 a" using same by auto
  then obtain db2 row2 where r2: "upsertArticle db1 t2 v2 = Inr (db2, row2)"
    using upsertArticle_succeeds [of db1 v2 t2] by blast
  have "rows_for db2 fid g = [row2]"
    using upsertArticle_rows(1) [OF u1 r2] rows_for_conflicts [OF k2] by simp
  then show ?thesis
    using r1 r2 upsertArticle_rows(4) [OF u1 r2] by simp
qed

theorem upsertArticle_twice_one_row_witness:
  "unique_feed_guid ex_db \<and> getFeedById ex_db 1 = Some ex_feed \<and>
   UpsertArticleInput.feed_id ex_v1 = 1 \<and> UpsertArticleInput.guid ex_v1 = ''same-guid'' \<and>
   UpsertArticleInput.feed_id ex_v2 = 1 \<and> UpsertArticleInput.guid ex_v2 = ''same-guid'' \<and>
   (\<exists>db1 row1 db2 row2.
      upsertArticle ex_db 1700000000 ex_v1 = Inr (db1, row1) \<and>
      upsertArticle db1 1700000060 ex_v2 = Inr (db2, row2) \<and>
      rows_for db2 1 ''same-guid'' = [row2] \<and>
      Article.title row2 = ''v2'' \<and>
      Article.link row2 = ''https://example.com/g'' \<and>
      Article.content row2 = ''Body'' \<and>
      Article.summary row2 = ''Sum'' \<and>
      Article.author row2 = ''Alice'' \<and>
      Article.published_at row2 = Some 1000)"
proof -
  have u: "unique_feed_guid ex_db"
    by (simp add: unique_feed_guid_def ex_db_def)
  have f: "getFeedById ex_db 1 = Some ex_feed"
    by (simp add: getFeedById_def ex_db_def ex_feed_def)
  have k1: "UpsertArticleInput.feed_id ex_v1 = 1" "UpsertArticleInput.guid ex_v1 = ''same-guid''"
    by (simp_all add: ex_v1_def)
  have k2: "UpsertArticleInput.feed_id ex_v2 = 1" "UpsertArticleInput.guid ex_v2 = ''same-guid''"
    by (simp_all add: ex_v2_def)
  have c: "UpsertArticleInput.title ex_v2 = ''v2''"
    "UpsertArticleInput.link ex_v2 = ''https://example.com/g''"
    "UpsertArticleInput.content ex_v2 = ''Body''"
    "UpsertArticleInput.summary ex_v2 = ''Sum''"
    "UpsertArticleInput.author ex_v2 = ''Alice''"
    "UpsertArticleInput.published_at ex_v2 = Some 1000"
    by (simp_all add: ex_v2_def)
  show ?thesis
    using u f k1 k2 upsertArticle_twice_one_row [OF u f k1 k2, of 1700000000 1700000060]
    by (simp only: c)
qed

lemma find_map_same:
  "(\<And>x. P (f x) = P x) \<Longrightarrow> find P (map f xs) = map_option f (find P xs)"
  by (induction xs) auto

lemma find_append_Some: "find P xs = Some x \<Longrightarrow> find P (xs @ ys) = Some x"
  by (induction xs) (auto split: if_splits)

lemma getArticleById_upsert:
  assumes g: "getArticleById db aid = Some a" and r: "upsertArticle db now i = Inr (db', row)"
  shows "getArticleById db' aid = Some (if conflicts i a then do_update i a else a)"
proof (cases "find (conflicts i) (articles db)")
  case None
  from g have "a \<in> set (articles db)"
    using find_in_set [of _ "articles db" a] by (auto simp: getArticleById_def)
  with None have nc: "\<not> conflicts i a" by (auto simp: find_None_iff)
  from r None have "articles db' = articles db @ [inserted_row db now i]"
    by (auto simp: upsertArticle_def Let_def split: if_splits)
  then show ?thesis using g nc by (simp add: getArticleById_def find_append_Some)
next
  case (Some old)
  with r have "articles db' = map (\<lambda>a. if conflicts i a then do_update i a else a) (articles db)"
    by (auto simp: upsertArticle_def)
  moreover have "\<And>x. Article.id (if conflicts i x then do_update i x else x) = Article.id x"
    by (simp add: do_update_def)
  ultimately show ?thesis using g
    by (simp add: getArticleById_def find_map_same [where P = "\<lambda>a. Article.id a = aid"])
qed

lemma flags_do_update [simp]:
  "is_read (do_update i a) = is_read a" "is_starred (do_update i a) = is_starred a"
  "Article.id (do_update i a) = Article.id a" "Article.created_at (do_update i a) = Article.created_at a"
  by (simp_all add: do_update_def)

lemma upsert_items_feeds:
  "upsert_items db now fid its r = (db', r') \<Longrightarrow> feeds db' = feeds db"
proof (induction its arbitrary: db r)
  case Nil
  then show ?case by simp
next
  case (Cons it its)
  show ?case
  proof (cases "upsertArticle db now (item_input fid it)")
    case (Inl e)
    with Cons show ?thesis by simp
  next
    case (Inr p)
    obtain db1 row where p: "p = (db1, row)" by (cases p)
    have "feeds db1 = feeds db" using Inr p
      by (auto simp: upsertArticle_def Let_def split: option.splits if_splits)
    moreover have "feeds db' = feeds db1" using Cons.prems Inr p Cons.IH by simp
    ultimately show ?thesis by simp
  qed
qed

lemma upsert_items_flags:
  "getArticleById db aid = Some a \<Longrightarrow> upsert_items db now fid its r = (db', r') \<Longrightarrow>
   \<exists>a'. getArticleById db' aid = Some a' \<and> is_read a' = is_read a \<and> is_starred a' = is_starred a"
proof (induction its arbitrary: db r a)
  case Nil
  then show ?case by simp
next
  case (Cons it its)
  show ?case
  proof (cases "upsertArticle db now (item_input fid it)")
    case (Inl e)
    with Cons show ?thesis by simp
  next
    case (Inr p)
    obtain db1 row where p: "p = (db1, row)" by (cases p)
    let ?a1 = "if conflicts (item_input fid it) a then do_update (item_input fid it) a else a"
    have g1: "getArticleById db1 aid = Some ?a1"
      using getArticleById_upsert [OF Cons.prems(1)] Inr p by simp
    have "upsert_items db1 now fid its (r\<lparr>added := added r + 1\<rparr>) = (db', r')"
      using Cons.prems(2) Inr p by simp
    from Cons.IH [OF g1 this] show ?thesis by auto
  qed
qed

lemma getArticleById_touch [simp]:
  "getArticleById (touchFeedFetchedAt db now fid) aid = getArticleById db aid"
  by (simp add: getArticleById_def touchFeedFetchedAt_def)

lemma refreshFeed_flags:
  assumes "getArticleById db aid = Some a"
  shows "\<exists>a'. getArticleById (fst (refreshFeed w db now fid)) aid = Some a' \<and>
               is_read a' = is_read a \<and> is_starred a' = is_starred a"
proof (cases "refreshFeed_start db fid")
  case (Returned r)
  then show ?thesis using assms by (simp add: refreshFeed_def)
next
  case (Awaiting i r u)
  show ?thesis
  proof (cases "fetchAndParseFeed w u")
    case (Inl e)
    then show ?thesis using assms Awaiting by (simp add: refreshFeed_def refreshFeed_resume_def)
  next
    case (Inr parsed)
    obtain db1 r1 where l: "upsert_items db now i (ParsedFeed.items parsed) r = (db1, r1)"
      by (cases "upsert_items db now i (ParsedFeed.items parsed) r")
    from upsert_items_flags [OF assms l] show ?thesis
      using Awaiting Inr l by (simp add: refreshFeed_def refreshFeed_resume_def)
  qed
qed

lemma getArticleById_markArticleRead:
  "getArticleById db aid = Some a \<Longrightarrow>
   getArticleById (markArticleRead db aid True) aid = Some (a\<lparr>is_read := 1\<rparr>)"
proof -
  assume g: "getArticleById db aid = Some a"
  have "\<And>xs. find (\<lambda>a. Article.id a = aid) xs = Some a \<Longrightarrow>
     find (\<lambda>a. Article.id a = aid)
       (map (\<lambda>a. if Article.id a = aid then a\<lparr>is_read := 1\<rparr> else a) xs) = Some (a\<lparr>is_read := 1\<rparr>)"
    subgoal for xs by (induction xs) (auto split: if_splits)
    done
  then show ?thesis using g by (simp add: getArticleById_def markArticleRead_def)
qed

text \<open>
  C2. For every stored article: an upsert that succeeds leaves its is_read and
  is_starred as they were; an upsert under the article's (feed_id, guid) succeeds and
  leaves the feeds and the columns id, feed_id, guid, is_read, is_starred and created_at
  of every row untouched, so that it changes title, link, content, summary, author and
  published_at only; and after marking the article read, a refresh of any feed from any
  remote content leaves is_read at 1.
\<close>

theorem upsert_preserves_flags:
  assumes g: "getArticleById db aid = Some a"
  shows "(\<forall>db' row. upsertArticle db now i = Inr (db', row) \<longrightarrow>
            (\<exists>a'. getArticleById db' aid = Some a' \<and>
                   is_read a' = is_read a \<and> is_starred a' = is_starred a)) \<and>
         (conflicts i a \<longrightarrow>
            (\<exists>db' row. upsertArticle db now i = Inr (db', row) \<and>
               feeds db' = feeds db \<and>
               map Article.id (articles db') = map Article.id (articles db) \<and>
               map Article.feed_id (articles db') = map Article.feed_id (articles db) \<and>
               map Article.guid (articles db') = map Article.guid (articles db) \<and>
               map is_read (articles db') = map is_read (articles db) \<and>
               map is_starred (articles db') = map is_starred (articles db) \<and>
               map Article.created_at (articles db') = map Article.created_at (articles db))) \<and>
         (\<exists>a'. getArticleById (fst (refreshFeed w (markArticleRead db aid True) now fid)) aid = Some a' \<and>
               is_read a' = 1 \<and> is_starred a' = is_starred a)"
proof (intro conjI allI impI)
  fix db' row
  assume "upsertArticle db now i = Inr (db', row)"
  from getArticleById_upsert [OF g this]
  show "\<exists>a'. getArticleById db' aid = Some a' \<and> is_read a' = is_read a \<and> is_starred a' = is_starred a"
    by simp
next
  assume c: "conflicts i a"
  from g have "a \<in> set (articles db)"
    using find_in_set [of _ "articles db" a] by (auto simp: getArticleById_def)
  with c obtain old where o: "find (conflicts i) (articles db) = Some old"
    by (cases "find (conflicts i) (articles db)") (auto simp: find_None_iff)
  let ?db' = "db\<lparr>articles := map (\<lambda>a. if conflicts i a then do_update i a else a) (articles db),
                 articles_seq := next_rowid db\<rparr>"
  have "upsertArticle db now i = Inr (?db', do_update i old)"
    using o by (simp add: upsertArticle_def)
  moreover have "feeds ?db' = feeds db" by simp
  moreover have "map Article.id (articles ?db') = map Article.id (articles db)"
    "map Article.feed_id (articles ?db') = map Article.feed_id (articles db)"
    "map Article.guid (articles ?db') = map Article.guid (articles db)"
    "map is_read (articles ?db') = map is_read (articles db)"
    "map is_starred (articles ?db') = map is_starred (articles db)"
    "map Article.created_at (articles ?db') = map Article.created_at (articles db)"
    by (simp_all add: comp_def if_distrib cong: if_cong)
  ultimately show "\<exists>db' row. upsertArticle db now i = Inr (db', row) \<and>
               feeds db' = feeds db \<and>
               map Article.id (articles db') = map Article.id (articles db) \<and>
               map Article.feed_id (articles db') = map Article.feed_id (articles db) \<and>
               map Article.guid (articles db') = map Article.guid (articles db) \<and>
               map is_read (articles db') = map is_read (articles db) \<and>
               map is_starred (articles db') = map is_starred (articles db) \<and>
               map Article.created_at (articles db') = map Article.created_at (articles db)"
    by blast
next
  from refreshFeed_flags [OF getArticleById_markArticleRead [OF g], of w now fid]
  show "\<exists>a'. getArticleById (fst (refreshFeed w (markArticleRead db aid True) now fid)) aid = Some a' \<and>
               is_read a' = 1 \<and> is_starred a' = is_starred a"
    by simp
qed

theorem upsert_preserves_flags_witness:
  "getArticleById ex_db 1 = Some ex_article \<and> conflicts ex_update ex_article \<and>
   is_read ex_article = 1 \<and> is_starred ex_article = 1 \<and>
   (\<exists>db' row a'. upsertArticle ex_db 1700000000 ex_update = Inr (db', row) \<and>
      getArticleById db' 1 = Some a' \<and> is_read a' = 1 \<and> is_starred a' = 1 \<and>
      map is_read (articles db') = map is_read (articles ex_db) \<and>
      map is_starred (articles db') = map is_starred (articles ex_db)) \<and>
   (\<exists>a'. getArticleById (fst (refreshFeed ex_world (markArticleRead ex_db 1 True) 1700000000 1)) 1
            = Some a' \<and> is_read a' = 1)"
proof -
  have g: "getArticleById ex_db 1 = Some ex_article"
    by (simp add: getArticleById_def ex_db_def ex_article_def)
  have c: "conflicts ex_update ex_article"
    by (simp add: conflicts_def ex_update_def ex_v2_def ex_article_def)
  have fl: "is_read ex_article = 1" "is_starred ex_article = 1"
    by (simp_all add: ex_article_def)
  note t = upsert_preserves_flags [OF g, of 1700000000 ex_update ex_world 1]
  from t c obtain db' row where
    r: "upsertArticle ex_db 1700000000 ex_update = Inr (db', row)"
    and m: "map is_read (articles db') = map is_read (articles ex_db)"
           "map is_starred (articles db') = map is_starred (articles ex_db)"
    by blast
  from t r obtain a' where
    "getArticleById db' 1 = Some a'" "is_read a' = is_read ex_article" "is_starred a' = is_starred ex_article"
    by blast
  with r m fl have
    "\<exists>db' row a'. upsertArticle ex_db 1700000000 ex_update = Inr (db', row) \<and>
      getArticleById db' 1 = Some a' \<and> is_read a' = 1 \<and> is_starred a' = 1 \<and>
      map is_read (articles db') = map is_read (articles ex_db) \<and>
      map is_starred (articles db') = map is_starred (articles ex_db)"
    by auto
  moreover from t have
    "\<exists>a'. getArticleById (fst (refreshFeed ex_world (markArticleRead ex_db 1 True) 1700000000 1)) 1
            = Some a' \<and> is_read a' = 1"
    by blast
  ultimately show ?thesis using g c fl by blast
qed

section \<open>Properties of refreshing one feed\<close>

text \<open>
  C7. Refreshing a feed id that no stored feed has returns a result with no additions and
  exactly one error message, and the store (every feed, every article) is as before.
\<close>

theorem refreshFeed_unknown_feed:
  assumes "getFeedById db fid = None"
  shows "\<exists>result. refreshFeed w db now fid = (db, result) \<and> feedId result = fid \<and>
           added result = 0 \<and> length (errors result) = 1 \<and>
           errors result = [''Feed '' @ show_int fid @ '' not found'']"
  using assms by (simp add: refreshFeed_def refreshFeed_start_def)

theorem refreshFeed_unknown_feed_witness:
  "getFeedById ex_db 9999 = None \<and>
   (\<exists>result. refreshFeed ex_world ex_db 1700000000 9999 = (ex_db, result) \<and>
      feedId result = 9999 \<and> added result = 0 \<and> length (errors result) = 1 \<and>
      errors result = [''Feed '' @ show_int 9999 @ '' not found''])"
proof -
  have h: "getFeedById ex_db 9999 = None"
    by (simp add: getFeedById_def ex_db_def ex_feed_def)
  show ?thesis
    using h refreshFeed_unknown_feed [OF h, of ex_world 1700000000] by simp
qed

lemma getFeedById_touch:
  "getFeedById db fid = Some feed \<Longrightarrow>
   getFeedById (touchFeedFetchedAt db now fid) fid = Some (feed\<lparr>last_fetched_at := Some now\<rparr>)"
proof -
  assume g: "getFeedById db fid = Some feed"
  have "\<And>xs. find (\<lambda>f. Feed.id f = fid) xs = Some feed \<Longrightarrow>
     find (\<lambda>f. Feed.id f = fid)
       (map (\<lambda>f. if Feed.id f = fid then f\<lparr>last_fetched_at := Some now\<rparr> else f) xs)
     = Some (feed\<lparr>last_fetched_at := Some now\<rparr>)"
    subgoal for xs by (induction xs) (auto split: if_splits)
    done
  then show ?thesis using g by (simp add: getFeedById_def touchFeedFetchedAt_def)
qed

lemma refreshFeed_start_found:
  "getFeedById db fid = Some feed \<Longrightarrow>
   refreshFeed_start db fid = Awaiting fid \<lparr>feedId = fid, added = 0, errors = []\<rparr> (url feed)"
  by (simp add: refreshFeed_start_def)

text \<open>
  C4. For a stored feed: when the fetch-and-parse step fails, \<open>refreshFeed\<close> returns a
  result with no additions whose only error is the failure's message, and the store is
  as before, so the feed keeps its last_fetched_at; when the step succeeds, the feed's
  row after the call is the row as it was with last_fetched_at set to the clock reading.
\<close>

theorem refreshFeed_fetch_outcome:
  assumes g: "getFeedById db fid = Some feed"
  shows "(\<forall>msg. fetchAndParseFeed w (url feed) = Inl msg \<longrightarrow>
            refreshFeed w db now fid = (db, \<lparr>feedId = fid, added = 0, errors = [msg]\<rparr>) \<and>
            getFeedById (fst (refreshFeed w db now fid)) fid = Some feed) \<and>
         (\<forall>parsed. fetchAndParseFeed w (url feed) = Inr parsed \<longrightarrow>
            getFeedById (fst (refreshFeed w db now fid)) fid
              = Some (feed\<lparr>last_fetched_at := Some now\<rparr>))"
proof (intro conjI allI impI)
  fix msg assume f: "fetchAndParseFeed w (url feed) = Inl msg"
  then show "refreshFeed w db now fid = (db, \<lparr>feedId = fid, added = 0, errors = [msg]\<rparr>)"
    by (simp add: refreshFeed_def refreshFeed_start_found [OF g] refreshFeed_resume_def)
  then show "getFeedById (fst (refreshFeed w db now fid)) fid = Some feed"
    using g by simp
next
  fix parsed assume f: "fetchAndParseFeed w (url feed) = Inr parsed"
  obtain db1 r1 where
    l: "upsert_items db now fid (ParsedFeed.items parsed) \<lparr>feedId = fid, added = 0, errors = []\<rparr> = (db1, r1)"
    by (cases "upsert_items db now fid (ParsedFeed.items parsed) \<lparr>feedId = fid, added = 0, errors = []\<rparr>")
  have "feeds db1 = feeds db" using upsert_items_feeds [OF l] .
  then have "getFeedById db1 fid = Some feed" using g by (simp add: getFeedById_def)
  then have "getFeedById (touchFeedFetchedAt db1 now fid) fid = Some (feed\<lparr>last_fetched_at := Some now\<rparr>)"
    by (rule getFeedById_touch)
  then show "getFeedById (fst (refreshFeed w db now fid)) fid
              = Some (feed\<lparr>last_fetched_at := Some now\<rparr>)"
    by (simp add: refreshFeed_def refreshFeed_start_found [OF g] refreshFeed_resume_def f l)
qed

lemma ex_fetch_offline: "fetchAndParseFeed ex_offline u = Inl ''Network timeout''"
  by (simp add: fetchAndParseFeed_def ex_offline_def ex_world_def)

lemma ex_fetch:
  "fetchAndParseFeed ex_world ''https://example.com/feed'' =
     Inr \<lparr>ParsedFeed.title = ''Test Feed'', ParsedFeed.description = [],
          ParsedFeed.site_url = ''https://example.com'',
          ParsedFeed.items =
            [\<lparr>ParsedFeedItem.guid = ''guid-1'', ParsedFeedItem.title = ''v2'',
              ParsedFeedItem.link = ''https://example.com/1'',
              ParsedFeedItem.content = ''Full content one'',
              ParsedFeedItem.summary = ''Summary one'', ParsedFeedItem.author = ''Alice'',
              ParsedFeedItem.published_at = Some 1700000000\<rparr>,
             \<lparr>ParsedFeedItem.guid = ''https://example.com/2'', ParsedFeedItem.title = ''Article Two'',
              ParsedFeedItem.link = ''https://example.com/2'', ParsedFeedItem.content = [],
              ParsedFeedItem.summary = [], ParsedFeedItem.author = ''Bob'',
              ParsedFeedItem.published_at = None\<rparr>]\<rparr>"
  by (simp add: fetchAndParseFeed_def ex_world_def ex_feed_def ex_output_def ex_item1_def
      ex_item2_def normalize_item_def toUnixSeconds_def)

lemma ex_getFeed: "getFeedById ex_db 1 = Some ex_feed"
  by (simp add: getFeedById_def ex_db_def ex_feed_def)

lemma ex_url: "url ex_feed = ''https://example.com/feed''"
  by (simp add: ex_feed_def)

theorem refreshFeed_fetch_outcome_witness:
  "getFeedById ex_db 1 = Some ex_feed \<and>
   fetchAndParseFeed ex_offline (url ex_feed) = Inl ''Network timeout'' \<and>
   refreshFeed ex_offline ex_db 1700000000 1
     = (ex_db, \<lparr>feedId = 1, added = 0, errors = [''Network timeout'']\<rparr>) \<and>
   getFeedById (fst (refreshFeed ex_offline ex_db 1700000000 1)) 1 = Some ex_feed \<and>
   last_fetched_at ex_feed = None \<and>
   (\<exists>parsed. fetchAndParseFeed ex_world (url ex_feed) = Inr parsed) \<and>
   getFeedById (fst (refreshFeed ex_world ex_db 1700000000 1)) 1
     = Some (ex_feed\<lparr>last_fetched_at := Some 1700000000\<rparr>)"
  using ex_getFeed ex_fetch_offline [of "url ex_feed"] ex_fetch
    refreshFeed_fetch_outcome [OF ex_getFeed, of ex_offline 1700000000]
    refreshFeed_fetch_outcome [OF ex_getFeed, of ex_world 1700000000]
  by (simp add: ex_url) (simp add: ex_feed_def)

lemma upsertArticle_length:
  "upsertArticle db now i = Inr (db', row) \<Longrightarrow>
   length (articles db) \<le> length (articles db') \<and> length (articles db') \<le> Suc (length (articles db))"
  by (auto simp: upsertArticle_def Let_def split: option.splits if_splits)

lemma upsert_items_count:
  "upsert_items db now fid its r = (db', r') \<Longrightarrow>
   added r' + int (length (errors r')) = added r + int (length (errors r)) + int (length its) \<and>
   int (length (articles db')) - int (length (articles db)) \<le> added r' - added r \<and>
   length (errors r) \<le> length (errors r')"
proof (induction its arbitrary: db r)
  case Nil
  then show ?case by simp
next
  case (Cons it its)
  show ?case
  proof (cases "upsertArticle db now (item_input fid it)")
    case (Inl e)
    with Cons.prems have "upsert_items db now fid its (r\<lparr>errors := errors r @ [message e]\<rparr>) = (db', r')"
      by simp
    from Cons.IH [OF this] show ?thesis by simp
  next
    case (Inr p)
    obtain db1 row where p: "p = (db1, row)" by (cases p)
    with Cons.prems Inr have "upsert_items db1 now fid its (r\<lparr>added := added r + 1\<rparr>) = (db', r')"
      by simp
    from Cons.IH [OF this] upsertArticle_length [of db now "item_input fid it" db1 row] Inr p
    show ?thesis by simp
  qed
qed

lemma refreshFeed_resume_count:
  assumes "refreshFeed_resume db now fid \<lparr>feedId = fid, added = 0, errors = []\<rparr> (Inr parsed)
             = (db', result)"
  shows "added result + int (length (errors result)) = int (length (ParsedFeed.items parsed)) \<and>
         int (length (articles db')) - int (length (articles db)) \<le> added result"
proof -
  obtain db1 r1 where
    l: "upsert_items db now fid (ParsedFeed.items parsed) \<lparr>feedId = fid, added = 0, errors = []\<rparr> = (db1, r1)"
    by (cases "upsert_items db now fid (ParsedFeed.items parsed) \<lparr>feedId = fid, added = 0, errors = []\<rparr>")
  with assms have "db' = touchFeedFetchedAt db1 now fid" "result = r1"
    by (simp_all add: refreshFeed_resume_def)
  moreover have "articles (touchFeedFetchedAt db1 now fid) = articles db1"
    by (simp add: touchFeedFetchedAt_def)
  ultimately show ?thesis using upsert_items_count [OF l] by simp
qed


text \<open>The call during whose wait nothing touches the store is the case \<open>db = db0\<close>.\<close>

lemma refreshFeed_added_plus_errors_uninterrupted:
  assumes g: "getFeedById db fid = Some feed"
    and f: "fetchAndParseFeed w (url feed) = Inr parsed"
    and r: "refreshFeed w db now fid = (db', result)"
  shows "added result + int (length (errors result)) = int (length (ParsedFeed.items parsed)) \<and>
         int (length (articles db')) - int (length (articles db)) \<le> added result"
proof -
  have "refreshFeed w db now fid =
          refreshFeed_resume db now fid \<lparr>feedId = fid, added = 0, errors = []\<rparr> (Inr parsed)"
    by (simp add: refreshFeed_def refreshFeed_start_found [OF g] f)
  with r show ?thesis using refreshFeed_resume_count by simp
qed

lemma ex_refresh:
  "added (snd (refreshFeed ex_world ex_db 1700000000 1)) = 2 \<and>
   errors (snd (refreshFeed ex_world ex_db 1700000000 1)) = [] \<and>
   length (articles (fst (refreshFeed ex_world ex_db 1700000000 1))) = 2 \<and>
   map Article.guid (articles (fst (refreshFeed ex_world ex_db 1700000000 1)))
     = [''guid-1'', ''https://example.com/2''] \<and>
   map Article.title (articles (fst (refreshFeed ex_world ex_db 1700000000 1)))
     = [''v2'', ''Article Two''] \<and>
   map is_read (articles (fst (refreshFeed ex_world ex_db 1700000000 1))) = [1, 0]"
proof -
  have "refreshFeed ex_world ex_db 1700000000 1 =
          refreshFeed_resume ex_db 1700000000 1 \<lparr>feedId = 1, added = 0, errors = []\<rparr>
            (fetchAndParseFeed ex_world (url ex_feed))"
    by (simp add: refreshFeed_def refreshFeed_start_found [OF ex_getFeed])
  then have "refreshFeed ex_world ex_db 1700000000 1 =
          refreshFeed_resume ex_db 1700000000 1 \<lparr>feedId = 1, added = 0, errors = []\<rparr>
            (fetchAndParseFeed ex_world ''https://example.com/feed'')"
    by (simp add: ex_feed_def)
  then show ?thesis
    unfolding ex_fetch
    by (simp add: refreshFeed_resume_def
      ex_fetch upsertArticle_def item_input_def conflicts_def do_update_def inserted_row_def
      next_rowid_def touchFeedFetchedAt_def ex_db_def ex_article_def ex_feed_def Let_def)
qed




section \<open>Properties of the normalization\<close>

text \<open>
  C8. When the parser delivers a document, \<open>fetchAndParseFeed\<close> returns one normalized item
  per delivered item, in order, and the GUID of each is the provider's guid when it is
  present, otherwise the link, otherwise the title, otherwise the empty string.
\<close>

theorem fetchAndParseFeed_guid:
  assumes p: "parseURL w u = Inr feed"
  shows "\<exists>parsed. fetchAndParseFeed w u = Inr parsed \<and>
           length (ParsedFeed.items parsed)
             = length (case ParserOutput.items feed of None \<Rightarrow> [] | Some its \<Rightarrow> its) \<and>
           (\<forall>k < length (ParsedFeed.items parsed).
              ParsedFeedItem.guid (ParsedFeed.items parsed ! k) =
                (let item = (case ParserOutput.items feed of None \<Rightarrow> [] | Some its \<Rightarrow> its) ! k
                 in case ParserItem.guid item of
                      Some g \<Rightarrow> g
                    | None \<Rightarrow>
                        (case ParserItem.link item of
                           Some l \<Rightarrow> l
                         | None \<Rightarrow> (case ParserItem.title item of Some t \<Rightarrow> t | None \<Rightarrow> []))))"
  using p
  by (auto simp: fetchAndParseFeed_def normalize_item_def Let_def split: option.splits)

theorem fetchAndParseFeed_guid_witness:
  "parseURL ex_world ''https://example.com/feed'' = Inr ex_output \<and>
   ParserItem.guid ex_item1 = Some ''guid-1'' \<and>
   ParserItem.guid ex_item2 = None \<and> ParserItem.link ex_item2 = Some ''https://example.com/2'' \<and>
   (\<exists>parsed. fetchAndParseFeed ex_world ''https://example.com/feed'' = Inr parsed \<and>
      length (ParsedFeed.items parsed) = 2 \<and>
      ParsedFeedItem.guid (ParsedFeed.items parsed ! 0) = ''guid-1'' \<and>
      ParsedFeedItem.guid (ParsedFeed.items parsed ! 1) = ''https://example.com/2'')"
proof -
  have p: "parseURL ex_world ''https://example.com/feed'' = Inr ex_output"
    by (simp add: ex_world_def)
  from fetchAndParseFeed_guid [OF p] obtain parsed where
    f: "fetchAndParseFeed ex_world ''https://example.com/feed'' = Inr parsed"
    and n: "length (ParsedFeed.items parsed)
             = length (case ParserOutput.items ex_output of None \<Rightarrow> [] | Some its \<Rightarrow> its)"
    and k: "\<forall>k < length (ParsedFeed.items parsed).
              ParsedFeedItem.guid (ParsedFeed.items parsed ! k) =
                (let item = (case ParserOutput.items ex_output of None \<Rightarrow> [] | Some its \<Rightarrow> its) ! k
                 in case ParserItem.guid item of
                      Some g \<Rightarrow> g
                    | None \<Rightarrow>
                        (case ParserItem.link item of
                           Some l \<Rightarrow> l
                         | None \<Rightarrow> (case ParserItem.title item of Some t \<Rightarrow> t | None \<Rightarrow> [])))"
    by blast
  have n2: "length (ParsedFeed.items parsed) = 2" using n by (simp add: ex_output_def)
  have "ParsedFeedItem.guid (ParsedFeed.items parsed ! 0) = ''guid-1''"
    using k [rule_format, of 0] n2 by (simp add: ex_output_def ex_item1_def)
  moreover have "ParsedFeedItem.guid (ParsedFeed.items parsed ! 1) = ''https://example.com/2''"
    using k [rule_format, of 1] n2 by (simp add: ex_output_def ex_item2_def)
  moreover have "ParserItem.guid ex_item1 = Some ''guid-1''" "ParserItem.guid ex_item2 = None"
    "ParserItem.link ex_item2 = Some ''https://example.com/2''"
    by (simp_all add: ex_item1_def ex_item2_def)
  ultimately show ?thesis using p f n2 by blast
qed

section \<open>Properties of refreshing all feeds\<close>

lemma upsert_items_feedId:
  "upsert_items db now fid its r = (db', r') \<Longrightarrow> feedId r' = feedId r"
proof (induction its arbitrary: db r)
  case Nil
  then show ?case by simp
next
  case (Cons it its)
  show ?case
  proof (cases "upsertArticle db now (item_input fid it)")
    case (Inl e)
    with Cons.prems have "upsert_items db now fid its (r\<lparr>errors := errors r @ [message e]\<rparr>) = (db', r')"
      by simp
    from Cons.IH [OF this] show ?thesis by simp
  next
    case (Inr p)
    obtain db1 row where p: "p = (db1, row)" by (cases p)
    with Cons.prems Inr have "upsert_items db1 now fid its (r\<lparr>added := added r + 1\<rparr>) = (db', r')"
      by simp
    from Cons.IH [OF this] show ?thesis by simp
  qed
qed

lemma refreshFeed_resume_feedId:
  "refreshFeed_resume db now fid r fetched = (db', r') \<Longrightarrow> feedId r' = feedId r"
  by (cases fetched)
     (auto simp: refreshFeed_resume_def split: prod.splits dest: upsert_items_feedId)

lemma settle_calls:
  "settle w events db calls = (db', settled) \<Longrightarrow>
   length settled = length calls \<and>
   map call_feedId settled = map call_feedId calls \<and>
   (\<forall>j < length calls. returned (calls ! j) \<noteq> None \<longrightarrow> returned (settled ! j) \<noteq> None) \<and>
   (\<forall>j < length calls. j \<in> fst ` set events \<longrightarrow> returned (settled ! j) \<noteq> None)"
proof (induction events arbitrary: db calls)
  case Nil
  then show ?case by simp
next
  case (Cons ev events)
  obtain i now where ev: "ev = (i, now)" by (cases ev)
  show ?case
  proof (cases "i < length calls")
    case False
    with Cons.prems ev have s: "settle w events db calls = (db', settled)" by simp
    from Cons.IH [OF s] False ev show ?thesis by auto
  next
    case True
    show ?thesis
    proof (cases "calls ! i")
      case (Returned r)
      with Cons.prems ev True have s: "settle w events db calls = (db', settled)" by simp
      from Cons.IH [OF s] Returned ev show ?thesis by auto
    next
      case (Awaiting fid r u)
      obtain db1 r1 where
        res: "refreshFeed_resume db now fid r (fetchAndParseFeed w u) = (db1, r1)"
        by (cases "refreshFeed_resume db now fid r (fetchAndParseFeed w u)")
      let ?calls = "calls[i := Returned r1]"
      from Cons.prems ev True Awaiting res
      have s: "settle w events db1 ?calls = (db', settled)" by simp
      have id: "map call_feedId ?calls = map call_feedId calls"
        using refreshFeed_resume_feedId [OF res] Awaiting True
        by (simp add: map_update list_update_same_conv)
      have ret: "\<forall>j < length calls. returned (calls ! j) \<noteq> None \<longrightarrow> returned (?calls ! j) \<noteq> None"
        using True by (auto simp: nth_list_update)
      have reti: "returned (?calls ! i) \<noteq> None" using True by simp
      from Cons.IH [OF s] id ret reti True ev show ?thesis
        by (auto simp: nth_list_update)
    qed
  qed
qed

lemma those_all_Some:
  "\<forall>x\<in>set xs. x \<noteq> None \<Longrightarrow> \<exists>ys. those xs = Some ys \<and> map Some ys = xs"
  by (induction xs) auto

lemma call_feedId_returned: "returned c = Some r \<Longrightarrow> call_feedId c = feedId r"
  by (cases c) auto

lemma call_feedId_start [simp]: "call_feedId (refreshFeed_start db fid) = fid"
  by (simp add: refreshFeed_start_def Let_def split: option.splits)

text \<open>
  C3. Whatever the network answers for each feed and in whatever order the fetches
  settle, once every call's fetch has settled \<open>refreshAllFeeds\<close> returns as many results
  as \<open>listFeeds\<close> lists feeds, and result i carries the id of feed i of that list.
\<close>

theorem refreshAllFeeds_one_result_per_feed:
  assumes fair: "\<forall>i < length (listFeeds db). i \<in> fst ` set events"
  shows "\<exists>db' results. refreshAllFeeds w events db = Some (db', results) \<and>
           length results = length (listFeeds db) \<and>
           (\<forall>i < length (listFeeds db). feedId (results ! i) = Feed.id (listFeeds db ! i))"
proof -
  let ?calls = "map (\<lambda>f. refreshFeed_start db (Feed.id f)) (listFeeds db)"
  obtain db' settled where s: "settle w events db ?calls = (db', settled)"
    by (cases "settle w events db ?calls")
  note inv = settle_calls [OF s]
  have len: "length settled = length (listFeeds db)" using inv by simp
  have "\<forall>x\<in>set (map returned settled). x \<noteq> None"
    using inv fair len by (auto simp: in_set_conv_nth)
  then obtain results where
    t: "those (map returned settled) = Some results" and m: "map Some results = map returned settled"
    using those_all_Some by blast
  have rl: "length results = length (listFeeds db)"
    using m len by (metis length_map)
  have ids: "\<forall>i < length (listFeeds db). feedId (results ! i) = Feed.id (listFeeds db ! i)"
  proof (intro allI impI)
    fix i assume i: "i < length (listFeeds db)"
    have "returned (settled ! i) = Some (results ! i)"
      using m i len rl by (metis nth_map)
    then have "feedId (results ! i) = call_feedId (settled ! i)"
      by (simp add: call_feedId_returned)
    also have "\<dots> = map call_feedId settled ! i" using i len by simp
    also have "\<dots> = map call_feedId ?calls ! i" using inv by simp
    also have "\<dots> = Feed.id (listFeeds db ! i)" using i by simp
    finally show "feedId (results ! i) = Feed.id (listFeeds db ! i)" .
  qed
  have "refreshAllFeeds w events db = Some (db', results)"
    by (simp add: refreshAllFeeds_def Let_def s t)
  then show ?thesis using rl ids by blast
qed

lemma ex_nocase: "nocase ''Test Feed'' = ''test feed''" "nocase ''Bad Feed'' = ''bad feed''"
  by code_simp+

lemma id_extend [simp]: "Feed.id (Feed.extend f m) = Feed.id f"
  by (simp add: Feed.extend_def)

lemma ex_listFeeds2: "map Feed.id (listFeeds ex_db2) = [2, 1]"
  by (simp add: listFeeds_def ex_db2_def ex_db_def ex_bad_feed_def ex_feed_def ex_nocase)

lemma ex_refreshAll:
  "map_option snd (refreshAllFeeds ex_world ex_events ex_db2) =
     Some [\<lparr>feedId = 2, added = 0, errors = [''Network timeout'']\<rparr>,
           \<lparr>feedId = 1, added = 2, errors = []\<rparr>]"
  by code_simp

theorem refreshAllFeeds_one_result_per_feed_witness:
  "length (listFeeds ex_db2) = 2 \<and> map fst ex_events = [1, 0] \<and>
   map Feed.id (listFeeds ex_db2) = [2, 1] \<and>
   (\<exists>db' results.
      refreshAllFeeds ex_world ex_events ex_db2 = Some (db', results) \<and>
      length results = 2 \<and> feedId (results ! 0) = 2 \<and> feedId (results ! 1) = 1 \<and>
      results = [\<lparr>feedId = 2, added = 0, errors = [''Network timeout'']\<rparr>,
                 \<lparr>feedId = 1, added = 2, errors = []\<rparr>])"
proof -
  have len: "length (listFeeds ex_db2) = 2"
  proof -
    have "length (map Feed.id (listFeeds ex_db2)) = 2" by (simp only: ex_listFeeds2) simp
    then show ?thesis by simp
  qed
  have fair: "\<forall>i < length (listFeeds ex_db2). i \<in> fst ` set ex_events"
    unfolding len by (auto simp: less_2_cases_iff ex_events_def)
  from refreshAllFeeds_one_result_per_feed [OF fair, of ex_world]
  obtain db' results where
    r: "refreshAllFeeds ex_world ex_events ex_db2 = Some (db', results)"
    and l: "length results = length (listFeeds ex_db2)"
    and i: "\<forall>i < length (listFeeds ex_db2). feedId (results ! i) = Feed.id (listFeeds ex_db2 ! i)"
    by blast
  have c: "results = [\<lparr>feedId = 2, added = 0, errors = [''Network timeout'']\<rparr>,
                   \<lparr>feedId = 1, added = 2, errors = []\<rparr>]"
    using ex_refreshAll r by simp
  have "length results = 2 \<and> feedId (results ! 0) = 2 \<and> feedId (results ! 1) = 1"
    using l i len ex_listFeeds2 by (simp add: c)
  with r c have "\<exists>db' results.
      refreshAllFeeds ex_world ex_events ex_db2 = Some (db', results) \<and>
      length results = 2 \<and> feedId (results ! 0) = 2 \<and> feedId (results ! 1) = 1 \<and>
      results = [\<lparr>feedId = 2, added = 0, errors = [''Network timeout'']\<rparr>,
                 \<lparr>feedId = 1, added = 2, errors = []\<rparr>]"
    by blast
  moreover have "map fst ex_events = [1, 0]" by (simp add: ex_events_def)
  ultimately show ?thesis using len ex_listFeeds2 by blast
qed

section \<open>Properties of the migrations\<close>

lemma objects_create_mono:
  "n \<in> set (objects db) \<Longrightarrow> n \<in> set (objects (create_if_not_exists m db))"
  by (simp add: create_if_not_exists_def empty_table_def)

lemma migrations_create:
  "''migrations'' \<in> set (objects db) \<Longrightarrow> migrations (create_if_not_exists m db) = migrations db"
  by (auto simp: create_if_not_exists_def empty_table_def)

lemma exec_keeps_migrations:
  "''migrations'' \<in> set (objects db) \<Longrightarrow>
   ''migrations'' \<in> set (objects (exec script db)) \<and> migrations (exec script db) = migrations db"
  unfolding exec_def
proof (induction script arbitrary: db)
  case Nil
  then show ?case by simp
next
  case (Cons m ms)
  have "''migrations'' \<in> set (objects (create_if_not_exists m db))"
    using Cons.prems by (rule objects_create_mono)
  from Cons.IH [OF this] show ?case
    using migrations_create [OF Cons.prems, of m] by simp
qed

lemma create_migrations_table:
  "''migrations'' \<in> set (objects (create_if_not_exists ''migrations'' db))"
  by (simp add: create_if_not_exists_def empty_table_def)

lemma runMigrations_recorded:
  "\<exists>db1. runMigrations db = Inr db1 \<and> ''migrations'' \<in> set (objects db1) \<and> 1 \<in> set (migrations db1)"
proof -
  let ?d = "create_if_not_exists ''migrations'' db"
  have t: "''migrations'' \<in> set (objects ?d)" by (rule create_migrations_table)
  show ?thesis
  proof (cases "1 \<in> set (migrations ?d)")
    case True
    then show ?thesis using t by (simp add: runMigrations_def MIGRATIONS_def)
  next
    case False
    let ?e = "exec (sql (hd MIGRATIONS)) ?d"
    have e: "''migrations'' \<in> set (objects ?e)" "migrations ?e = migrations ?d"
      using exec_keeps_migrations [OF t] by simp_all
    then have "insert_migration 1 ?e = Inr (?e\<lparr>migrations := insort 1 (migrations ?e)\<rparr>)"
      using False by (simp add: insert_migration_def)
    then show ?thesis using False e
      by (simp add: runMigrations_def MIGRATIONS_def Let_def set_insort_key)
  qed
qed

lemma runMigrations_again:
  assumes "''migrations'' \<in> set (objects db)" and "1 \<in> set (migrations db)"
  shows "runMigrations db = Inr db"
  using assms by (simp add: runMigrations_def MIGRATIONS_def create_if_not_exists_def)

text \<open>
  C9. From any store, \<open>runMigrations\<close> returns without an error and records version 1; a
  second run straight after it returns without an error as well and leaves the set of
  recorded versions, indeed the whole store, as the first run left it.
\<close>

theorem runMigrations_idempotent:
  "\<exists>db1 db2. runMigrations db = Inr db1 \<and> runMigrations db1 = Inr db2 \<and>
     set (migrations db2) = set (migrations db1) \<and> 1 \<in> set (migrations db1) \<and> db2 = db1"
  using runMigrations_recorded [of db] runMigrations_again by auto

section \<open>Properties of the search\<close>

declare split_ws.simps [simp del]

lemma split_ws_Nil: "split_ws [] = [[]]"
  by (subst split_ws.simps) simp

lemma split_ws_space:
  "isWhiteSpace c \<Longrightarrow> split_ws (c # s) = [] # split_ws (dropWhile isWhiteSpace s)"
  by (subst split_ws.simps) simp

lemma split_ws_char:
  "\<not> isWhiteSpace c \<Longrightarrow>
   split_ws (c # s) =
     (c # takeWhile (\<lambda>c. \<not> isWhiteSpace c) s) #
       (if dropWhile (\<lambda>c. \<not> isWhiteSpace c) s = [] then []
        else split_ws (dropWhile isWhiteSpace (dropWhile (\<lambda>c. \<not> isWhiteSpace c) s)))"
  by (subst split_ws.simps) (simp add: Let_def)

lemma tokens_Nil: "filter (\<lambda>t. t \<noteq> []) (split_ws []) = []"
  by (simp add: split_ws_Nil)

lemma tokens_space:
  "isWhiteSpace c \<Longrightarrow>
   filter (\<lambda>t. t \<noteq> []) (split_ws (c # s)) = filter (\<lambda>t. t \<noteq> []) (split_ws (dropWhile isWhiteSpace s))"
  by (simp add: split_ws_space)

lemma tokens_dropWhile:
  "filter (\<lambda>t. t \<noteq> []) (split_ws (dropWhile isWhiteSpace s)) = filter (\<lambda>t. t \<noteq> []) (split_ws s)"
  by (cases s) (simp_all add: tokens_space)

lemma tokens_char:
  "\<not> isWhiteSpace c \<Longrightarrow>
   filter (\<lambda>t. t \<noteq> []) (split_ws (c # s)) =
     (c # takeWhile (\<lambda>c. \<not> isWhiteSpace c) s) #
       filter (\<lambda>t. t \<noteq> []) (split_ws (dropWhile (\<lambda>c. \<not> isWhiteSpace c) s))"
proof (cases "dropWhile (\<lambda>c. \<not> isWhiteSpace c) s = []")
  case True
  assume "\<not> isWhiteSpace c"
  then have "split_ws (c # s) = [c # takeWhile (\<lambda>c. \<not> isWhiteSpace c) s]"
    by (simp add: split_ws_char True)
  then show ?thesis by (simp only: True tokens_Nil) simp
next
  case False
  assume "\<not> isWhiteSpace c"
  then have "split_ws (c # s) =
      (c # takeWhile (\<lambda>c. \<not> isWhiteSpace c) s) #
        split_ws (dropWhile isWhiteSpace (dropWhile (\<lambda>c. \<not> isWhiteSpace c) s))"
    using False by (auto simp: split_ws_char)
  then show ?thesis by (simp add: tokens_dropWhile)
qed

lemma tokens_leading:
  "\<forall>c\<in>set ws. isWhiteSpace c \<Longrightarrow>
   filter (\<lambda>t. t \<noteq> []) (split_ws (ws @ s)) = filter (\<lambda>t. t \<noteq> []) (split_ws s)"
proof (induction ws)
  case Nil
  then show ?case by simp
next
  case (Cons c ws)
  then have "filter (\<lambda>t. t \<noteq> []) (split_ws ((c # ws) @ s))
      = filter (\<lambda>t. t \<noteq> []) (split_ws (dropWhile isWhiteSpace (ws @ s)))"
    by (simp add: tokens_space)
  also have "\<dots> = filter (\<lambda>t. t \<noteq> []) (split_ws (ws @ s))" by (rule tokens_dropWhile)
  also have "\<dots> = filter (\<lambda>t. t \<noteq> []) (split_ws s)" using Cons by simp
  finally show ?case .
qed

lemma tokens_all_space:
  "\<forall>c\<in>set ws. isWhiteSpace c \<Longrightarrow> filter (\<lambda>t. t \<noteq> []) (split_ws ws) = []"
  using tokens_leading [of ws "[]"] by (simp add: tokens_Nil)

lemma takeWhile_all_space:
  "\<forall>c\<in>set ws. isWhiteSpace c \<Longrightarrow> takeWhile (\<lambda>c. \<not> isWhiteSpace c) ws = []"
  by (cases ws) auto

lemma dropWhile_all_space:
  "\<forall>c\<in>set ws. isWhiteSpace c \<Longrightarrow> dropWhile (\<lambda>c. \<not> isWhiteSpace c) ws = ws"
  by (cases ws) auto

lemma tokens_trailing:
  "\<forall>c\<in>set ws. isWhiteSpace c \<Longrightarrow>
   filter (\<lambda>t. t \<noteq> []) (split_ws (s @ ws)) = filter (\<lambda>t. t \<noteq> []) (split_ws s)"
proof (induction s rule: length_induct)
  case (1 s)
  note ws = "1.prems"
  show ?case
  proof (cases s)
    case Nil
    then show ?thesis using tokens_all_space [OF ws] by (simp add: tokens_Nil)
  next
    case (Cons c s')
    show ?thesis
    proof (cases "isWhiteSpace c")
      case True
      have "filter (\<lambda>t. t \<noteq> []) (split_ws (s @ ws)) = filter (\<lambda>t. t \<noteq> []) (split_ws (s' @ ws))"
        using True Cons by (simp add: tokens_space tokens_dropWhile)
      also have "\<dots> = filter (\<lambda>t. t \<noteq> []) (split_ws s')"
        using "1.IH" ws Cons by simp
      also have "\<dots> = filter (\<lambda>t. t \<noteq> []) (split_ws s)"
        using True Cons by (simp add: tokens_space tokens_dropWhile)
      finally show ?thesis .
    next
      case False
      show ?thesis
      proof (cases "\<forall>x\<in>set s'. \<not> isWhiteSpace x")
        case True
        then have tw: "takeWhile (\<lambda>c. \<not> isWhiteSpace c) (s' @ ws) = s'"
          "dropWhile (\<lambda>c. \<not> isWhiteSpace c) (s' @ ws) = ws"
          using takeWhile_all_space [OF ws] dropWhile_all_space [OF ws]
          by simp_all
        have tw': "takeWhile (\<lambda>c. \<not> isWhiteSpace c) s' = s'"
          "dropWhile (\<lambda>c. \<not> isWhiteSpace c) s' = []"
          using True by simp_all
        have "filter (\<lambda>t. t \<noteq> []) (split_ws (s @ ws))
            = (c # s') # filter (\<lambda>t. t \<noteq> []) (split_ws ws)"
          using tokens_char [OF False, of "s' @ ws"] by (simp only: Cons append_Cons tw)
        moreover have "filter (\<lambda>t. t \<noteq> []) (split_ws s)
            = (c # s') # filter (\<lambda>t. t \<noteq> []) (split_ws [])"
          using tokens_char [OF False, of s'] by (simp only: Cons tw')
        ultimately show ?thesis by (simp only: tokens_all_space [OF ws] tokens_Nil)
      next
        case nall: False
        then have "takeWhile (\<lambda>c. \<not> isWhiteSpace c) (s' @ ws) = takeWhile (\<lambda>c. \<not> isWhiteSpace c) s'"
          "dropWhile (\<lambda>c. \<not> isWhiteSpace c) (s' @ ws) = dropWhile (\<lambda>c. \<not> isWhiteSpace c) s' @ ws"
          by (auto simp: takeWhile_append1 dropWhile_append1)
        moreover have "length (dropWhile (\<lambda>c. \<not> isWhiteSpace c) s') < length s"
          using Cons length_dropWhile_le [of "\<lambda>c. \<not> isWhiteSpace c" s'] by simp
        then have "filter (\<lambda>t. t \<noteq> []) (split_ws (dropWhile (\<lambda>c. \<not> isWhiteSpace c) s' @ ws))
            = filter (\<lambda>t. t \<noteq> []) (split_ws (dropWhile (\<lambda>c. \<not> isWhiteSpace c) s'))"
          using "1.IH" ws by simp
        ultimately show ?thesis using False Cons by (simp add: tokens_char)
      qed
    qed
  qed
qed

lemma trim_decompose:
  "s = takeWhile isWhiteSpace s @ trim s @ rev (takeWhile isWhiteSpace (rev (dropWhile isWhiteSpace s)))"
proof -
  let ?t = "dropWhile isWhiteSpace s"
  have "rev (dropWhile isWhiteSpace (rev ?t)) @ rev (takeWhile isWhiteSpace (rev ?t))
      = rev (takeWhile isWhiteSpace (rev ?t) @ dropWhile isWhiteSpace (rev ?t))"
    by (simp only: rev_append)
  also have "\<dots> = ?t" by (simp only: takeWhile_dropWhile_id rev_rev_ident)
  finally have "trim s @ rev (takeWhile isWhiteSpace (rev ?t)) = ?t"
    by (simp only: trim_def)
  then show ?thesis by (metis takeWhile_dropWhile_id)
qed

lemma isWhiteSpace_space [simp]: "isWhiteSpace 0x20"
  by (simp add: isWhiteSpace_def)

lemma replace_operators_space:
  "\<forall>c\<in>set ws. isWhiteSpace c \<Longrightarrow> \<forall>c\<in>set (replace_operators ws). isWhiteSpace c"
  by (auto simp: replace_operators_def)

lemma replace_operators_append [simp]:
  "replace_operators (a @ b) = replace_operators a @ replace_operators b"
  by (simp add: replace_operators_def)

lemma tokens_trim:
  "filter (\<lambda>t. t \<noteq> []) (split_ws (trim s)) = filter (\<lambda>t. t \<noteq> []) (split_ws s)"
proof -
  let ?pre = "takeWhile isWhiteSpace s"
  let ?post = "rev (takeWhile isWhiteSpace (rev (dropWhile isWhiteSpace s)))"
  have pre: "\<forall>c\<in>set ?pre. isWhiteSpace c" by (auto dest: set_takeWhileD)
  have post: "\<forall>c\<in>set ?post. isWhiteSpace c" by (auto dest: set_takeWhileD)
  have "filter (\<lambda>t. t \<noteq> []) (split_ws s)
      = filter (\<lambda>t. t \<noteq> []) (split_ws (?pre @ (trim s @ ?post)))"
    using trim_decompose [of s] by simp
  also have "\<dots> = filter (\<lambda>t. t \<noteq> []) (split_ws (trim s @ ?post))"
    using pre by (rule tokens_leading)
  also have "\<dots> = filter (\<lambda>t. t \<noteq> []) (split_ws (trim s))"
    using post by (rule tokens_trailing)
  finally show ?thesis by simp
qed

lemma tokens_replace_trim:
  "filter (\<lambda>t. t \<noteq> []) (split_ws (replace_operators (trim s))) = spec_tokens s"
proof -
  let ?pre = "takeWhile isWhiteSpace s"
  let ?post = "rev (takeWhile isWhiteSpace (rev (dropWhile isWhiteSpace s)))"
  have pre: "\<forall>c\<in>set (replace_operators ?pre). isWhiteSpace c"
    by (rule replace_operators_space) (auto dest: set_takeWhileD)
  have post: "\<forall>c\<in>set (replace_operators ?post). isWhiteSpace c"
    by (rule replace_operators_space) (auto dest: set_takeWhileD)
  have "replace_operators s
      = replace_operators ?pre @ (replace_operators (trim s) @ replace_operators ?post)"
    using arg_cong [OF trim_decompose [of s], of replace_operators] by simp
  then have "spec_tokens s
      = filter (\<lambda>t. t \<noteq> [])
          (split_ws (replace_operators ?pre @ (replace_operators (trim s) @ replace_operators ?post)))"
    by (simp add: spec_tokens_def)
  also have "\<dots> = filter (\<lambda>t. t \<noteq> []) (split_ws (replace_operators (trim s) @ replace_operators ?post))"
    using pre by (rule tokens_leading)
  also have "\<dots> = filter (\<lambda>t. t \<noteq> []) (split_ws (replace_operators (trim s)))"
    using post by (rule tokens_trailing)
  finally show ?thesis by simp
qed

lemma update_last:
  "ts \<noteq> [] \<Longrightarrow> ts[length ts - 1 := ts ! (length ts - 1) @ x] = butlast ts @ [last ts @ x]"
proof -
  assume ne: "ts \<noteq> []"
  then have ts: "ts = butlast ts @ [last ts]" by simp
  have "length ts - 1 = length (butlast ts)" by simp
  moreover have "(butlast ts @ [last ts])[length (butlast ts) := (butlast ts @ [last ts]) ! length (butlast ts) @ x]
      = butlast ts @ [last ts @ x]"
    by (simp add: list_update_append nth_append)
  ultimately show ?thesis using ts by metis
qed

lemma join_last_nonempty: "y \<noteq> [] \<Longrightarrow> join sep (xs @ [y]) \<noteq> []"
proof (induction xs)
  case Nil
  then show ?case by simp
next
  case (Cons x xs)
  then show ?case by (cases "xs @ [y]") auto
qed

lemma wildcard_final_last:
  "ts \<noteq> [] \<Longrightarrow> wildcard_final ts = butlast ts @ [last ts @ [0x2A]]"
  by (induction ts rule: wildcard_final.induct) simp_all

lemma sanitizeFtsQuery_trim: "sanitizeFtsQuery (trim query) = spec_fts_query query"
proof -
  have t: "filter (\<lambda>t. t \<noteq> []) (split_ws (trim (replace_operators (trim query)))) = spec_tokens query"
    by (simp only: tokens_trim tokens_replace_trim)
  show ?thesis
  proof (cases "spec_tokens query = []")
    case True
    then show ?thesis by (simp add: sanitizeFtsQuery_def Let_def t spec_fts_query_def)
  next
    case False
    then show ?thesis
      using update_last [OF False, of "[0x2A]"]
      by (simp add: sanitizeFtsQuery_def Let_def t spec_fts_query_def wildcard_final_last)
  qed
qed

lemma spec_fts_query_nonempty: "spec_tokens query \<noteq> [] \<Longrightarrow> spec_fts_query query \<noteq> []"
  by (simp add: spec_fts_query_def wildcard_final_last join_last_nonempty)

lemma spec_fts_query_no_tokens: "spec_tokens query = [] \<Longrightarrow> spec_fts_query query = []"
  by (simp add: spec_fts_query_def)

lemma trim_Nil_tokens: "trim query = [] \<Longrightarrow> spec_tokens query = []"
  using tokens_replace_trim [of query] by (simp add: replace_operators_def tokens_Nil)

lemma searchArticles_cases:
  "searchArticles fts query limit =
     (if spec_tokens query = [] then ([], Inr [])
      else ([spec_fts_query query], fts (spec_fts_query query) limit))"
proof (cases "spec_tokens query = []")
  case True
  then show ?thesis
    by (simp add: searchArticles_def Let_def sanitizeFtsQuery_trim spec_fts_query_no_tokens)
next
  case False
  then have "trim query \<noteq> []" using trim_Nil_tokens by blast
  then show ?thesis
    using False spec_fts_query_nonempty [OF False]
    by (simp add: searchArticles_def Let_def sanitizeFtsQuery_trim)
qed

lemma ex_query_power:
  "spec_tokens (ascii ''power'') = [ascii ''power'']"
  "spec_fts_query (ascii ''power'') = ascii ''power*''"
  by code_simp+

lemma ex_query_operators:
  "spec_tokens (ascii ''  -full:text  (power '') = [ascii ''full'', ascii ''text'', ascii ''power'']"
  "spec_fts_query (ascii ''  -full:text  (power '') = ascii ''full text power*''"
  by code_simp+

lemma ex_query_stars:
  "spec_tokens (ascii ''***'') = []"
  "spec_fts_query (ascii ''***'') = []"
  by code_simp+

text \<open>
  C5, as amended. For every query that leaves at least one token, the MATCH string
  \<open>searchArticles\<close> sends to the index is the one the specification describes: operator
  characters replaced by spaces, split on whitespace without the empty tokens, the
  wildcard appended to the final token only, joined by single spaces; it is the only
  string sent, and the call returns what the index answers to it.
\<close>

theorem searchArticles_issues_sanitized_query:
  assumes "spec_tokens query \<noteq> []"
  shows "searchArticles fts query limit =
           ([spec_fts_query query], fts (spec_fts_query query) limit)"
  using assms by (simp add: searchArticles_cases)

theorem searchArticles_issues_sanitized_query_witness:
  "spec_tokens (ascii ''power'') = [ascii ''power''] \<and>
   searchArticles ex_index (ascii ''power'') 50 = ([ascii ''power*''], Inr [7]) \<and>
   spec_tokens (ascii ''  -full:text  (power '') = [ascii ''full'', ascii ''text'', ascii ''power''] \<and>
   searchArticles ex_index (ascii ''  -full:text  (power '') 50
     = ([ascii ''full text power*''], Inr [])"
proof -
  have p: "spec_tokens (ascii ''power'') \<noteq> []"
    by (simp add: ex_query_power)
  have q: "spec_tokens (ascii ''  -full:text  (power '') \<noteq> []"
    by (simp add: ex_query_operators)
  have "ex_index (ascii ''power*'') 50 = Inr [7]" by (simp add: ex_index_def)
  moreover have "ex_index (ascii ''full text power*'') 50 = Inr []"
    by (simp add: ex_index_def ascii_def)
  ultimately show ?thesis
    using searchArticles_issues_sanitized_query [OF p, of ex_index 50]
      searchArticles_issues_sanitized_query [OF q, of ex_index 50]
    by (simp add: ex_query_power ex_query_operators)
qed

text \<open>
  C5 as it was stated, for every query, fails where no token remains: for the query
  \<^verbatim>\<open>***\<close> the described string is the empty string, and \<open>searchArticles\<close> sends nothing.
\<close>

theorem searchArticles_issues_nothing_counterexample:
  "spec_fts_query (ascii ''***'') = [] \<and>
   fst (searchArticles ex_index (ascii ''***'') 50) = [] \<and>
   fst (searchArticles ex_index (ascii ''***'') 50) \<noteq> [spec_fts_query (ascii ''***'')]"
  by (simp add: searchArticles_cases ex_query_stars)

text \<open>
  C6. For every query made of whitespace and operator characters only, the empty query
  included, \<open>searchArticles\<close> returns the empty sequence, sends nothing to the index and
  throws nothing, whatever the index would have answered.
\<close>

theorem searchArticles_no_tokens:
  assumes "\<forall>c\<in>set query. isWhiteSpace c \<or> isOperator c"
  shows "searchArticles fts query limit = ([], Inr [])"
proof -
  have "\<forall>c\<in>set (replace_operators query). isWhiteSpace c"
    using assms by (auto simp: replace_operators_def)
  then have "spec_tokens query = []"
    unfolding spec_tokens_def by (rule tokens_all_space)
  then show ?thesis
    by (simp add: searchArticles_cases)
qed

theorem searchArticles_no_tokens_witness:
  "list_all (\<lambda>c. isWhiteSpace c \<or> isOperator c) (ascii ''***'') \<and>
   list_all (\<lambda>c. isWhiteSpace c \<or> isOperator c) (ascii ''-()'') \<and>
   list_all (\<lambda>c. isWhiteSpace c \<or> isOperator c) (ascii '' - '') \<and>
   searchArticles ex_strict_index (ascii ''***'') 50 = ([], Inr []) \<and>
   searchArticles ex_strict_index (ascii ''-()'') 50 = ([], Inr []) \<and>
   searchArticles ex_strict_index (ascii '' - '') 50 = ([], Inr []) \<and>
   searchArticles ex_strict_index [] 50 = ([], Inr [])"
proof -
  have a: "\<forall>c\<in>set (ascii ''***''). isWhiteSpace c \<or> isOperator c"
    by (simp add: ascii_def isOperator_def)
  have b: "\<forall>c\<in>set (ascii ''-()''). isWhiteSpace c \<or> isOperator c"
    by (simp add: ascii_def isOperator_def)
  have c: "\<forall>c\<in>set (ascii '' - ''). isWhiteSpace c \<or> isOperator c"
    by (simp add: ascii_def isOperator_def isWhiteSpace_def)
  have d: "\<forall>c\<in>set ([] :: jsstring). isWhiteSpace c \<or> isOperator c" by simp
  show ?thesis
    using a b c
      searchArticles_no_tokens [OF a, of ex_strict_index 50]
      searchArticles_no_tokens [OF b, of ex_strict_index 50]
      searchArticles_no_tokens [OF c, of ex_strict_index 50]
      searchArticles_no_tokens [OF d, of ex_strict_index 50]
    by (simp add: list_all_iff)
qed

end
